theory Spec2Isabelle
  imports Main
begin

section \<open>Python values and built-ins used by MakePolymer.py\<close>

text \<open>
  Strings are lists of 8-bit characters (code points below 256); integers are unbounded.
  Interpreter resource limits (memory, the size limit of a repeated string, the digit
  limit of integer conversion) are outside the model. Printing under the verbosity flag
  has no influence on any returned value and is left out.
\<close>

datatype exn =
    TypeError string
  | ValueError string
  | KeyError string
  | IndexError
  | AttributeError
  | RuntimeError
  | UnboundLocalError
  | EOFError
  | SystemExit
  | Exception string

definition both_forms_msg :: string where
  "both_forms_msg = ''Cannot specify both single and super monomers''"

definition role_msg :: string where
  "role_msg = ''Need to specify wether end group is terminator or initiator.''"

definition not_symmetric_msg :: string where
  "not_symmetric_msg =
     ''end group smiles is not palendromic and has no attatchment point specified.''"

definition int_literal_msg :: string where
  "int_literal_msg = ''invalid literal for int() with base 10''"

definition unknown_inators_msg :: string where
  "unknown_inators_msg = ''Unknown combination of inators''"

text \<open>A command-line or JSON argument: \<open>None\<close>, a string, or a list of strings.\<close>

datatype pyarg = PyNone | PyStr string | PyList "string list"

fun truthy :: "pyarg \<Rightarrow> bool" where
  "truthy PyNone = False"
| "truthy (PyStr s) = (s \<noteq> [])"
| "truthy (PyList xs) = (xs \<noteq> [])"

subsection \<open>\<open>int(str)\<close> in base 10\<close>

definition py_isspace :: "char \<Rightarrow> bool" where
  "py_isspace c =
     (let n = (of_char c :: nat)
      in (9 \<le> n \<and> n \<le> 13) \<or> n = 32 \<or> n = 133 \<or> n = 160)"

definition py_isdigit :: "char \<Rightarrow> bool" where
  "py_isdigit c = (let n = (of_char c :: nat) in 48 \<le> n \<and> n \<le> 57)"

definition digit_val :: "char \<Rightarrow> int" where
  "digit_val c = int (of_char c) - 48"

definition py_strip :: "string \<Rightarrow> string" where
  "py_strip s = rev (dropWhile py_isspace (rev (dropWhile py_isspace s)))"

text \<open>Digits, with single underscores allowed between two digits.\<close>

fun digits_ok :: "string \<Rightarrow> bool" where
  "digits_ok [] = False"
| "digits_ok [c] = py_isdigit c"
| "digits_ok (c # d # cs) =
     (py_isdigit c \<and> (if d = CHR ''_'' then digits_ok cs else digits_ok (d # cs)))"

definition digits_value :: "string \<Rightarrow> int" where
  "digits_value s = foldl (\<lambda>acc c. if c = CHR ''_'' then acc else 10 * acc + digit_val c) 0 s"

definition py_int :: "string \<Rightarrow> int option" where
  "py_int s =
     (case py_strip s of
        [] \<Rightarrow> None
      | c # cs \<Rightarrow>
          if c = CHR ''-'' then (if digits_ok cs then Some (- digits_value cs) else None)
          else if c = CHR ''+'' then (if digits_ok cs then Some (digits_value cs) else None)
          else if digits_ok (c # cs) then Some (digits_value (c # cs)) else None)"

text \<open>\<open>k * s\<close> on a string: a count of zero or less gives the empty string.\<close>

definition py_str_mul :: "int \<Rightarrow> string \<Rightarrow> string" where
  "py_str_mul k s = concat (replicate (nat k) s)"

section \<open>Repeat-unit selection\<close>

text \<open>
  \<open>getRepeatUnit(single, super)\<close>: both given is a TypeError; otherwise the falsy
  entries of \<open>[single, super]\<close> are filtered out and element 0 of the rest is taken,
  which is an IndexError when nothing is left.
\<close>

definition getRepeatUnit :: "pyarg \<Rightarrow> pyarg \<Rightarrow> exn + pyarg" where
  "getRepeatUnit single super =
     (if single \<noteq> PyNone \<and> super \<noteq> PyNone then Inl (TypeError both_forms_msg)
      else (case filter truthy [single, super] of
              [] \<Rightarrow> Inl IndexError
            | x # _ \<Rightarrow> Inr x))"

section \<open>Molecular graphs and the toolkit\<close>

text \<open>
  A toolkit molecule as far as the assembly code observes it: atoms in index order, each
  with its atomic number and its \<open>atomNote\<close> property, and typed bonds in the order they
  were added. Parsing and serialising notation, rendering the preview and the
  conformer search are the toolkit's; they are parameters of the model.
\<close>

datatype bond_type = SINGLE | DOUBLE | TRIPLE | AROMATIC

record atom =
  AtomicNum :: nat
  atomNote :: "string option"

record mol =
  atoms :: "atom list"
  bonds :: "(nat \<times> nat \<times> bond_type) list"

text \<open>What \<open>validate_end_group\<close> returns: plain notation, or the result of parsing
  (\<open>None\<close> when the toolkit rejects the notation).\<close>

datatype inator = Smiles string | Parsed "mol option"

text \<open>
  The tables of \<open>smiles.py\<close> (not part of the sources at hand) and the toolkit's
  functions. \<open>preview_error\<close> is the failure, if any, of drawing and showing the preview
  image; \<open>optPol_outcome\<close> is what \<open>optPol\<close> returns or raises for a notation.
\<close>

record env =
  monomer_dict :: "string \<rightharpoonup> string"
  init_dict :: "string \<rightharpoonup> string"
  MolFromSmiles :: "string \<Rightarrow> mol option"
  MolToSmiles :: "mol \<Rightarrow> string"
  preview_error :: "string \<Rightarrow> exn option"
  optPol_outcome :: "string \<Rightarrow> exn + (mol \<times> mol)"

definition dummy_indices :: "mol \<Rightarrow> nat list" where
  "dummy_indices m = filter (\<lambda>i. AtomicNum (atoms m ! i) = 0) [0..<length (atoms m)]"

definition GetNeighbors :: "mol \<Rightarrow> nat \<Rightarrow> nat list" where
  "GetNeighbors m x =
     concat (map (\<lambda>(a, b, ty). if a = x then [b] else if b = x then [a] else []) (bonds m))"

definition first_neighbor :: "mol \<Rightarrow> nat \<Rightarrow> exn + nat" where
  "first_neighbor m x = (case GetNeighbors m x of [] \<Rightarrow> Inl IndexError | y # _ \<Rightarrow> Inr y)"

fun map_exn :: "('a \<Rightarrow> exn + 'b) \<Rightarrow> 'a list \<Rightarrow> exn + 'b list" where
  "map_exn f [] = Inr []"
| "map_exn f (x # xs) =
     (case f x of
        Inl e \<Rightarrow> Inl e
      | Inr y \<Rightarrow> (case map_exn f xs of Inl e \<Rightarrow> Inl e | Inr ys \<Rightarrow> Inr (y # ys)))"

definition SetProp :: "mol \<Rightarrow> nat \<Rightarrow> string \<Rightarrow> mol" where
  "SetProp m i v = m\<lparr>atoms := (atoms m)[i := (atoms m ! i)\<lparr>atomNote := Some v\<rparr>]\<rparr>"

definition noted :: "mol \<Rightarrow> string \<Rightarrow> nat list" where
  "noted m v = filter (\<lambda>i. atomNote (atoms m ! i) = Some v) [0..<length (atoms m)]"

definition CombineMols :: "mol \<Rightarrow> mol \<Rightarrow> mol" where
  "CombineMols m1 m2 =
     \<lparr>atoms = atoms m1 @ atoms m2,
      bonds = bonds m1 @
        map (\<lambda>(a, b, ty). (a + length (atoms m1), b + length (atoms m1), ty)) (bonds m2)\<rparr>"

definition bonded :: "mol \<Rightarrow> nat \<Rightarrow> nat \<Rightarrow> bool" where
  "bonded m a b = list_ex (\<lambda>(x, y, ty). (x = a \<and> y = b) \<or> (x = b \<and> y = a)) (bonds m)"

definition AddBond :: "mol \<Rightarrow> nat \<Rightarrow> nat \<Rightarrow> bond_type \<Rightarrow> exn + mol" where
  "AddBond m a b ty =
     (if a = b \<or> length (atoms m) \<le> a \<or> length (atoms m) \<le> b \<or> bonded m a b
      then Inl RuntimeError
      else Inr (m\<lparr>bonds := bonds m @ [(a, b, ty)]\<rparr>))"

text \<open>\<open>RemoveAtom\<close> deletes the atom and its bonds; every higher index moves down by one.\<close>

definition RemoveAtom :: "mol \<Rightarrow> nat \<Rightarrow> mol" where
  "RemoveAtom m idx =
     \<lparr>atoms = take idx (atoms m) @ drop (Suc idx) (atoms m),
      bonds = map (\<lambda>(a, b, ty). (if idx < a then a - 1 else a, if idx < b then b - 1 else b, ty))
                (filter (\<lambda>(a, b, ty). a \<noteq> idx \<and> b \<noteq> idx) (bonds m))\<rparr>"

section \<open>Lookups and end-group validation\<close>

definition monomer_smi_lookup :: "env \<Rightarrow> pyarg \<Rightarrow> exn + string" where
  "monomer_smi_lookup E m =
     (case m of
        PyStr k \<Rightarrow> (case monomer_dict E k of None \<Rightarrow> Inl (KeyError k) | Some v \<Rightarrow> Inr v)
      | PyNone \<Rightarrow> Inl (KeyError ''None'')
      | PyList xs \<Rightarrow> Inl (TypeError ''unhashable type: list''))"

definition lookup_or_literal :: "(string \<rightharpoonup> string) \<Rightarrow> string \<Rightarrow> string" where
  "lookup_or_literal d x = (case d x of Some v \<Rightarrow> v | None \<Rightarrow> x)"

definition inator_smi_lookup :: "env \<Rightarrow> string \<Rightarrow> string \<Rightarrow> string \<times> string" where
  "inator_smi_lookup E i t = (lookup_or_literal (init_dict E) i, lookup_or_literal (init_dict E) t)"

definition strip_markers :: "string \<Rightarrow> string" where
  "strip_markers s = filter (\<lambda>c. c \<noteq> CHR ''*'') s"

text \<open>The character the validator inspects: index 0 when \<open>Init\<close> is set, index -1 otherwise.\<close>

definition boundary_char :: "bool \<Rightarrow> string \<Rightarrow> char" where
  "boundary_char Init s = (if Init then hd s else last s)"

definition validate_end_group :: "env \<Rightarrow> string \<Rightarrow> bool \<Rightarrow> bool \<Rightarrow> exn + inator" where
  "validate_end_group E inator Init Term =
     (if \<not> Init \<and> \<not> Term then Inl (ValueError role_msg)
      else if inator \<noteq> [] \<and> boundary_char Init inator = CHR ''*''
        then Inr (Parsed (MolFromSmiles E inator))
      else if inator \<noteq> rev inator \<and> CHR ''*'' \<notin> set inator
        then Inl (ValueError not_symmetric_msg)
      else Inr (Smiles (strip_markers inator)))"

section \<open>Building blocks\<close>

fun explicit_coefs :: "string list \<Rightarrow> exn + int list" where
  "explicit_coefs [] = Inr []"
| "explicit_coefs (x # xs) =
     (case (if length x = 1
            then (case py_int x of None \<Rightarrow> Inl (ValueError int_literal_msg) | Some k \<Rightarrow> Inr k)
            else Inr 0) of
        Inl e \<Rightarrow> Inl e
      | Inr k \<Rightarrow> (case explicit_coefs xs of Inl e \<Rightarrow> Inl e | Inr ks \<Rightarrow> Inr (k # ks)))"

text \<open>The loop over the deciphered tokens; the state is \<open>(repeat_unit, repeat_coef)\<close>.\<close>

fun repeat_loop :: "string list \<Rightarrow> string \<times> int \<Rightarrow> string \<times> int" where
  "repeat_loop [] st = st"
| "repeat_loop (element # rest) (repeat_unit, repeat_coef) =
     (case py_int element of
        Some k \<Rightarrow> repeat_loop rest (repeat_unit, k)
      | None \<Rightarrow> repeat_loop rest (repeat_unit @ py_str_mul repeat_coef element, 1))"

definition deciphered_dict_keys :: "env \<Rightarrow> string list \<Rightarrow> string list" where
  "deciphered_dict_keys E m = map (lookup_or_literal (monomer_dict E)) m"

definition super_monomer :: "env \<Rightarrow> string list \<Rightarrow> exn + string \<times> int" where
  "super_monomer E m =
     (let keys = deciphered_dict_keys E m in
      case explicit_coefs keys of
        Inl e \<Rightarrow> Inl e
      | Inr coefs \<Rightarrow>
          let sum_implicit_coefs = int (length keys) - int (length coefs);
              monomers_per_n = sum_list coefs + sum_implicit_coefs
          in Inr (fst (repeat_loop keys ([], 1)), monomers_per_n))"

definition get_building_blocks ::
    "env \<Rightarrow> string \<Rightarrow> string \<Rightarrow> pyarg \<Rightarrow> exn + inator \<times> inator \<times> string \<times> int" where
  "get_building_blocks E i t m =
     (let (init, term) = inator_smi_lookup E i t in
      case (case m of
              PyList xs \<Rightarrow> super_monomer E xs
            | _ \<Rightarrow> (case monomer_smi_lookup E m of Inl e \<Rightarrow> Inl e | Inr u \<Rightarrow> Inr (u, 1))) of
        Inl e \<Rightarrow> Inl e
      | Inr (repeat_unit, monomers_per_n) \<Rightarrow>
          (case validate_end_group E init True False of
             Inl e \<Rightarrow> Inl e
           | Inr init' \<Rightarrow>
               (case validate_end_group E term False True of
                  Inl e \<Rightarrow> Inl e
                | Inr term' \<Rightarrow> Inr (init', term', repeat_unit, monomers_per_n))))"

section \<open>Attaching end groups\<close>

datatype end_role = Initiator | Terminator

fun role_note :: "end_role \<Rightarrow> string" where
  "role_note Initiator = ''head''"
| "role_note Terminator = ''tail''"

text \<open>Calling \<open>GetAtoms\<close> on anything but a molecule (a string, \<open>None\<close>) is an AttributeError.\<close>

fun mol_of :: "inator \<Rightarrow> mol option" where
  "mol_of (Smiles s) = None"
| "mol_of (Parsed mo) = mo"

text \<open>
  Labelling of the head and the tail of the parsed chain, and the list of end groups to
  fuse. The source tells the two end groups apart by comparing each with the objects
  it was given; the two parsed end groups are distinct objects, so each entry carries
  its role here.
\<close>

definition label_ends ::
    "mol \<Rightarrow> nat list \<Rightarrow> bool \<times> inator \<Rightarrow> bool \<times> inator \<Rightarrow> exn + mol \<times> (end_role \<times> inator) list" where
  "label_ends pol conn_atoms add_initiator add_terminator =
     (if fst add_initiator then
        (case conn_atoms of
           [] \<Rightarrow> Inl IndexError
         | c0 # others \<Rightarrow>
             let pol1 = SetProp pol c0 ''head'' in
             if fst add_terminator then
               (case others of
                  [] \<Rightarrow> Inl IndexError
                | c1 # _ \<Rightarrow>
                    Inr (SetProp pol1 c1 ''tail'',
                         [(Initiator, snd add_initiator), (Terminator, snd add_terminator)]))
             else Inr (pol1, [(Initiator, snd add_initiator)]))
      else if fst add_terminator then
        (case conn_atoms of
           [] \<Rightarrow> Inl IndexError
         | c0 # _ \<Rightarrow> Inr (SetProp pol c0 ''tail'', [(Terminator, snd add_terminator)]))
      else Inl (Exception unknown_inators_msg))"

text \<open>One pass of the loop over the end groups: tag, merge, bond, mark as done.\<close>

definition fuse_one :: "end_role \<Rightarrow> inator \<Rightarrow> mol \<Rightarrow> exn + mol" where
  "fuse_one role ino mergedrw =
     (case mol_of ino of
        None \<Rightarrow> Inl AttributeError
      | Some inator \<Rightarrow>
          (case map_exn (first_neighbor inator) (dummy_indices inator) of
             Inl e \<Rightarrow> Inl e
           | Inr [] \<Rightarrow> Inl IndexError
           | Inr (attatch # _) \<Rightarrow>
               let merged = CombineMols (SetProp inator attatch ''attatch'') mergedrw in
               (case noted merged ''attatch'' of
                  [] \<Rightarrow> Inl IndexError
                | inator_attatchment # _ \<Rightarrow>
                    (case noted merged (role_note role) of
                       [] \<Rightarrow> Inl IndexError
                     | bond_here # _ \<Rightarrow>
                         (case AddBond merged bond_here inator_attatchment SINGLE of
                            Inl e \<Rightarrow> Inl e
                          | Inr m \<Rightarrow> Inr (SetProp m inator_attatchment ''done''))))))"

fun fuse_inators :: "(end_role \<times> inator) list \<Rightarrow> mol \<Rightarrow> exn + mol" where
  "fuse_inators [] mergedrw = Inr mergedrw"
| "fuse_inators ((role, ino) # others) mergedrw =
     (case fuse_one role ino mergedrw of
        Inl e \<Rightarrow> Inl e
      | Inr m \<Rightarrow> fuse_inators others m)"

text \<open>\<open>for i in range(numDummies)\<close>: remove the first remaining dummy atom.\<close>

fun remove_dummies :: "nat \<Rightarrow> mol \<Rightarrow> exn + mol" where
  "remove_dummies 0 m = Inr m"
| "remove_dummies (Suc k) m =
     (case dummy_indices m of
        [] \<Rightarrow> Inl IndexError
      | d # _ \<Rightarrow> remove_dummies k (RemoveAtom m d))"

text \<open>The structure \<open>attatch_frags\<close> has built just before the labelling is done.\<close>

definition labelled_chain ::
    "env \<Rightarrow> string \<Rightarrow> bool \<times> inator \<Rightarrow> bool \<times> inator \<Rightarrow> exn + mol \<times> (end_role \<times> inator) list" where
  "labelled_chain E polymer_smiles add_initiator add_terminator =
     (case MolFromSmiles E polymer_smiles of
        None \<Rightarrow> Inl AttributeError
      | Some pol \<Rightarrow>
          (case map_exn (first_neighbor pol) (dummy_indices pol) of
             Inl e \<Rightarrow> Inl e
           | Inr conn_atoms \<Rightarrow> label_ends pol conn_atoms add_initiator add_terminator))"

text \<open>The merged structure after all bonds are made, before the dummy atoms go.\<close>

definition fused_chain :: "env \<Rightarrow> string \<Rightarrow> bool \<times> inator \<Rightarrow> bool \<times> inator \<Rightarrow> exn + mol" where
  "fused_chain E polymer_smiles add_initiator add_terminator =
     (case labelled_chain E polymer_smiles add_initiator add_terminator of
        Inl e \<Rightarrow> Inl e
      | Inr (pol, inators) \<Rightarrow> fuse_inators inators pol)"

text \<open>\<open>attatch_frags\<close> up to the final serialisation, and \<open>attatch_frags\<close> itself.\<close>

definition attatch_frags_mol :: "env \<Rightarrow> string \<Rightarrow> bool \<times> inator \<Rightarrow> bool \<times> inator \<Rightarrow> exn + mol" where
  "attatch_frags_mol E polymer_smiles add_initiator add_terminator =
     (case fused_chain E polymer_smiles add_initiator add_terminator of
        Inl e \<Rightarrow> Inl e
      | Inr mergedrw \<Rightarrow> remove_dummies (length (dummy_indices mergedrw)) mergedrw)"

definition attatch_frags :: "env \<Rightarrow> string \<Rightarrow> bool \<times> inator \<Rightarrow> bool \<times> inator \<Rightarrow> exn + string" where
  "attatch_frags E polymer_smiles add_initiator add_terminator =
     (case attatch_frags_mol E polymer_smiles add_initiator add_terminator of
        Inl e \<Rightarrow> Inl e
      | Inr mergedrw \<Rightarrow> Inr (MolToSmiles E mergedrw))"

text \<open>
  \<open>add_inator_smiles\<close> in two steps: what it decides from the types of the end groups
  (the notation is complete, or \<open>attatch_frags\<close> is to be called on these arguments),
  and carrying the decision out.
\<close>

datatype plan = Spliced string | Fuse string "bool \<times> inator" "bool \<times> inator"

definition add_inator_plan :: "string \<Rightarrow> inator \<Rightarrow> inator \<Rightarrow> plan" where
  "add_inator_plan smi init term =
     (let (smi1, add_initiator) =
            (case init of Parsed mo \<Rightarrow> (''*'' @ smi, True) | Smiles s \<Rightarrow> (s @ smi, False));
          (smi2, add_terminator) =
            (case term of Parsed mo \<Rightarrow> (smi1 @ ''*'', True) | Smiles s \<Rightarrow> (smi1 @ s, False))
      in if add_terminator \<or> add_initiator
         then Fuse smi2 (add_initiator, init) (add_terminator, term)
         else Spliced smi2)"

definition add_inator_smiles :: "env \<Rightarrow> string \<Rightarrow> inator \<Rightarrow> inator \<Rightarrow> exn + string" where
  "add_inator_smiles E smi init term =
     (case add_inator_plan smi init term of
        Spliced s \<Rightarrow> Inr s
      | Fuse s add_initiator add_terminator \<Rightarrow> attatch_frags E s add_initiator add_terminator)"

text \<open>\<open>createPolymerSMILES\<close> returns a triple under \<open>test\<close> and a pair otherwise.\<close>

datatype smiles_result = WithTest string string int | Plain string int

definition createPolymerSMILES ::
    "env \<Rightarrow> string \<Rightarrow> int \<Rightarrow> pyarg \<Rightarrow> string \<Rightarrow> bool \<Rightarrow> exn + smiles_result" where
  "createPolymerSMILES E i n r t test =
     (case get_building_blocks E i t r of
        Inl e \<Rightarrow> Inl e
      | Inr (init, term, repeat_unit, m_per_n) \<Rightarrow>
          let polymer_SMILES = py_str_mul n repeat_unit in
          if test then
            (case add_inator_smiles E repeat_unit init term of
               Inl e \<Rightarrow> Inl e
             | Inr test_smi \<Rightarrow>
                 (case add_inator_smiles E polymer_SMILES init term of
                    Inl e \<Rightarrow> Inl e
                  | Inr full_smiles \<Rightarrow> Inr (WithTest test_smi full_smiles m_per_n)))
          else
            (case add_inator_smiles E polymer_SMILES init term of
               Inl e \<Rightarrow> Inl e
             | Inr full_smiles \<Rightarrow> Inr (Plain full_smiles m_per_n)))"

section \<open>Confirmation and the chain-family driver\<close>

text \<open>
  The operator's pending answers and the log of what has been shown and embedded.
  \<open>Preview s\<close>: the image of notation \<open>s\<close> was shown; \<open>Embed s\<close>: \<open>optPol\<close> was called
  on \<open>s\<close> (conformer generation and minimisation).
\<close>

datatype event = Preview string | Embed string

record world =
  stdin :: "string list"
  trace :: "event list"

definition lower_char :: "char \<Rightarrow> char" where
  "lower_char c =
     (let n = (of_char c :: nat)
      in if (65 \<le> n \<and> n \<le> 90) \<or> (192 \<le> n \<and> n \<le> 222 \<and> n \<noteq> 215) then char_of (n + 32) else c)"

definition accepted :: "string \<Rightarrow> bool" where
  "accepted inp = (map lower_char inp = ''y'' \<or> inp = [])"

definition confirmStructure ::
    "env \<Rightarrow> string \<Rightarrow> bool option \<Rightarrow> world \<Rightarrow> (exn + bool option) \<times> world" where
  "confirmStructure E smi proceed w =
     (case preview_error E smi of
        Some e \<Rightarrow> (Inl e, w)
      | None \<Rightarrow>
          let w1 = w\<lparr>trace := trace w @ [Preview smi]\<rparr> in
          (case stdin w1 of
             [] \<Rightarrow> (Inl EOFError, w1)
           | inp # rest \<Rightarrow>
               let w2 = w1\<lparr>stdin := rest\<rparr> in
               if accepted inp
               then (Inr (if proceed \<noteq> None then Some True else None), w2)
               else (Inl SystemExit, w2)))"

definition optPol :: "env \<Rightarrow> string \<Rightarrow> world \<Rightarrow> (exn + mol \<times> mol) \<times> world" where
  "optPol E smiles w = (optPol_outcome E smiles, w\<lparr>trace := trace w @ [Embed smiles]\<rparr>)"

record loop_state =
  POL_LIST :: "mol list"
  SMI_LIST :: "string list"
  Unopt_pols :: "mol list"
  proceed_var :: bool
  smi_var :: "string option"
  m_per_n_var :: "int option"

fun plot_loop ::
    "env \<Rightarrow> string \<Rightarrow> pyarg \<Rightarrow> string \<Rightarrow> bool \<Rightarrow> int list \<Rightarrow> loop_state \<Rightarrow> world
       \<Rightarrow> (exn + loop_state) \<times> world" where
  "plot_loop E i r t confirm [] st w = (Inr st, w)"
| "plot_loop E i r t confirm (j # js) st w =
     (case (if j = 1 \<and> confirm \<and> \<not> proceed_var st then
              (case createPolymerSMILES E i j r t True of
                 Inl e \<Rightarrow> (Inl e, w)
               | Inr (Plain s k) \<Rightarrow> (Inl (ValueError ''not enough values to unpack''), w)
               | Inr (WithTest test_smi smi m_per_n) \<Rightarrow>
                   (case confirmStructure E test_smi (Some (proceed_var st)) w of
                      (Inl e, w1) \<Rightarrow> (Inl e, w1)
                    | (Inr p, w1) \<Rightarrow>
                        (Inr (st\<lparr>proceed_var := (p = Some True), smi_var := Some smi,
                                 m_per_n_var := Some m_per_n\<rparr>), w1)))
            else (Inr st, w)) of
        (Inl e, w1) \<Rightarrow> (Inl e, w1)
      | (Inr st1, w1) \<Rightarrow>
          (case (if 1 < j \<or> \<not> confirm then
                   (case createPolymerSMILES E i j r t False of
                      Inl e \<Rightarrow> Inl e
                    | Inr (WithTest a b c) \<Rightarrow> Inl (ValueError ''too many values to unpack'')
                    | Inr (Plain smi m_per_n) \<Rightarrow>
                        Inr (st1\<lparr>smi_var := Some smi, m_per_n_var := Some m_per_n\<rparr>))
                 else Inr st1) of
             Inl e \<Rightarrow> (Inl e, w1)
           | Inr st2 \<Rightarrow>
               (case smi_var st2 of
                  None \<Rightarrow> (Inl UnboundLocalError, w1)
                | Some smi \<Rightarrow>
                    (case optPol E smi w1 of
                       (Inl e, w2) \<Rightarrow> (Inl e, w2)
                     | (Inr (pol_h, pol), w2) \<Rightarrow>
                         plot_loop E i r t confirm js
                           (st2\<lparr>POL_LIST := POL_LIST st2 @ [pol_h],
                                SMI_LIST := SMI_LIST st2 @ [smi],
                                Unopt_pols := Unopt_pols st2 @ [pol]\<rparr>) w2))))"

datatype polymers =
    Family "mol list" "string list" "mol list" int
  | Single mol string mol int

definition make_One_or_More_Polymers ::
    "env \<Rightarrow> string \<Rightarrow> int \<Rightarrow> pyarg \<Rightarrow> string \<Rightarrow> bool \<Rightarrow> bool \<Rightarrow> world \<Rightarrow> (exn + polymers) \<times> world" where
  "make_One_or_More_Polymers E i n r t plot confirm w =
     (if plot then
        (case plot_loop E i r t confirm [1..n]
                \<lparr>POL_LIST = [], SMI_LIST = [], Unopt_pols = [],
                 proceed_var = (if confirm = True then False else True),
                 smi_var = None, m_per_n_var = None\<rparr> w of
           (Inl e, w1) \<Rightarrow> (Inl e, w1)
         | (Inr st, w1) \<Rightarrow>
             (case m_per_n_var st of
                None \<Rightarrow> (Inl UnboundLocalError, w1)
              | Some m_per_n \<Rightarrow>
                  (Inr (Family (POL_LIST st) (SMI_LIST st) (Unopt_pols st) m_per_n), w1)))
      else
        (case createPolymerSMILES E i n r t True of
           Inl e \<Rightarrow> (Inl e, w)
         | Inr (Plain s k) \<Rightarrow> (Inl (ValueError ''not enough values to unpack''), w)
         | Inr (WithTest test_smi full_smi m_per_n) \<Rightarrow>
             (case (if confirm then confirmStructure E test_smi None w else (Inr None, w)) of
                (Inl e, w1) \<Rightarrow> (Inl e, w1)
              | (Inr p, w1) \<Rightarrow>
                  (case optPol E full_smi w1 of
                     (Inl e, w2) \<Rightarrow> (Inl e, w2)
                   | (Inr (pol_h, pol), w2) \<Rightarrow> (Inr (Single pol_h full_smi pol m_per_n), w2)))))"

text \<open>
  One run of \<open>main\<close> up to the structures: the repeat unit is selected from the two
  command-line forms, and confirmation is requested unless the run is quiet.
\<close>

definition main_build ::
    "env \<Rightarrow> string \<Rightarrow> int \<Rightarrow> pyarg \<Rightarrow> pyarg \<Rightarrow> string \<Rightarrow> bool \<Rightarrow> bool \<Rightarrow> world
       \<Rightarrow> (exn + polymers) \<times> world" where
  "main_build E initiator n single_monomer super_monomer_arg terminator plot quiet w =
     (case getRepeatUnit single_monomer super_monomer_arg of
        Inl e \<Rightarrow> (Inl e, w)
      | Inr repeat_unit \<Rightarrow>
          make_One_or_More_Polymers E initiator n repeat_unit terminator plot (\<not> quiet) w)"

text \<open>The labels of a family in \<open>drawPol\<close> and \<open>makePlot\<close>: entry \<open>i\<close> (from 0) is \<open>(i + 1) * mpn\<close>.\<close>

definition family_labels :: "'a list \<Rightarrow> int \<Rightarrow> int list" where
  "family_labels pol mpn = map (\<lambda>i. (int i + 1) * mpn) [0..<length pol]"

section \<open>The family loop without a pending confirmation\<close>

text \<open>One plain pass of the family loop (no confirmation pending), as a pure function: the row
  appended for length \<open>j\<close>, and the events of a sequence of plain passes.\<close>

definition row_of ::
    "env \<Rightarrow> string \<Rightarrow> pyarg \<Rightarrow> string \<Rightarrow> int \<Rightarrow> exn + (mol \<times> string \<times> mol \<times> int)" where
  "row_of E i r t j =
     (case createPolymerSMILES E i j r t False of
        Inl e \<Rightarrow> Inl e
      | Inr (WithTest a b c) \<Rightarrow> Inl (ValueError ''too many values to unpack'')
      | Inr (Plain smi m) \<Rightarrow>
          (case optPol_outcome E smi of
             Inl e \<Rightarrow> Inl e
           | Inr (pol_h, pol) \<Rightarrow> Inr (pol_h, smi, pol, m)))"

fun add_row :: "loop_state \<Rightarrow> mol \<times> string \<times> mol \<times> int \<Rightarrow> loop_state" where
  "add_row st (pol_h, smi, pol, m) =
     st\<lparr>smi_var := Some smi, m_per_n_var := Some m,
        POL_LIST := POL_LIST st @ [pol_h], SMI_LIST := SMI_LIST st @ [smi],
        Unopt_pols := Unopt_pols st @ [pol]\<rparr>"

fun plain_events :: "env \<Rightarrow> string \<Rightarrow> pyarg \<Rightarrow> string \<Rightarrow> int list \<Rightarrow> event list" where
  "plain_events E i r t [] = []"
| "plain_events E i r t (j # js) =
     (case createPolymerSMILES E i j r t False of
        Inr (Plain smi m) \<Rightarrow>
          Embed smi # (case optPol_outcome E smi of Inl e \<Rightarrow> [] | Inr x \<Rightarrow> plain_events E i r t js)
      | _ \<Rightarrow> [])"

definition family_of_rows :: "(mol \<times> string \<times> mol \<times> int) list \<Rightarrow> exn + polymers" where
  "family_of_rows rows =
     (if rows = [] then Inl UnboundLocalError
      else Inr (Family (map fst rows) (map (fst \<circ> snd) rows) (map (fst \<circ> snd \<circ> snd) rows)
                  (snd (snd (snd (last rows))))))"

definition family_result :: "env \<Rightarrow> string \<Rightarrow> pyarg \<Rightarrow> string \<Rightarrow> int \<Rightarrow> exn + polymers" where
  "family_result E i r t n =
     (case map_exn (row_of E i r t) [1..n] of
        Inl e \<Rightarrow> Inl e
      | Inr rows \<Rightarrow> family_of_rows rows)"

fun is_Preview :: "event \<Rightarrow> bool" where
  "is_Preview (Preview s) = True"
| "is_Preview (Embed s) = False"

fun is_Embed :: "event \<Rightarrow> bool" where
  "is_Embed (Embed s) = True"
| "is_Embed (Preview s) = False"

section \<open>Well-formed parse results\<close>

text \<open>
  What the toolkit's parser yields for plain notation: no atom carries an \<open>atomNote\<close>, and
  every bond joins two atoms of the molecule.
\<close>

definition unnoted :: "mol \<Rightarrow> bool" where
  "unnoted m = list_all (\<lambda>a. atomNote a = None) (atoms m)"

definition wf_bonds :: "mol \<Rightarrow> bool" where
  "wf_bonds m =
     list_all (\<lambda>(a, b, ty). a < length (atoms m) \<and> b < length (atoms m)) (bonds m)"

section \<open>The fused and the completed structure in closed form\<close>

text \<open>
  What the fusion is meant to produce, written without the loops and the notes that
  steer them. \<open>placeholder_neighbour m k\<close> is the first neighbour of the \<open>k\<close>-th
  placeholder of \<open>m\<close> (from 0). \<open>attach_end inator a rw h\<close> puts the end group in front of
  the running structure \<open>rw\<close> and joins its atom \<open>a\<close> to atom \<open>h\<close> of \<open>rw\<close> by a single
  bond. \<open>without_dummies m\<close> is \<open>m\<close> without its placeholder atoms and without every
  bond that touches one, the remaining atoms renumbered in order.
\<close>

definition placeholder_neighbour :: "mol \<Rightarrow> nat \<Rightarrow> nat option" where
  "placeholder_neighbour m k =
     (if k < length (dummy_indices m)
      then (case GetNeighbors m (dummy_indices m ! k) of [] \<Rightarrow> None | y # _ \<Rightarrow> Some y)
      else None)"

text \<open>
  \<open>attachable m k\<close>: \<open>m\<close> has at least \<open>k\<close> placeholders, and every placeholder of \<open>m\<close> has
  a neighbour (the list of first neighbours is built for all of them before one is used).
\<close>

definition attachable :: "mol \<Rightarrow> nat \<Rightarrow> bool" where
  "attachable m k =
     (k \<le> length (dummy_indices m)
      \<and> list_all (\<lambda>d. GetNeighbors m d \<noteq> []) (dummy_indices m))"

definition attach_end :: "mol \<Rightarrow> nat \<Rightarrow> mol \<Rightarrow> nat \<Rightarrow> mol" where
  "attach_end inator a rw h =
     \<lparr>atoms = atoms (SetProp inator a ''done'') @ atoms rw,
      bonds = bonds (CombineMols inator rw) @ [(h + length (atoms inator), a, SINGLE)]\<rparr>"

definition real_index :: "mol \<Rightarrow> nat \<Rightarrow> nat" where
  "real_index m x = length (filter (\<lambda>a. AtomicNum a \<noteq> 0) (take x (atoms m)))"

definition without_dummies :: "mol \<Rightarrow> mol" where
  "without_dummies m =
     \<lparr>atoms = filter (\<lambda>a. AtomicNum a \<noteq> 0) (atoms m),
      bonds = map (\<lambda>(a, b, ty). (real_index m a, real_index m b, ty))
                (filter (\<lambda>(a, b, ty). AtomicNum (atoms m ! a) \<noteq> 0 \<and> AtomicNum (atoms m ! b) \<noteq> 0)
                   (bonds m))\<rparr>"

section \<open>The repeat fragment as the specification words it\<close>



section \<open>A small environment for concrete runs\<close>

text \<open>
  Notation restricted to unbranched chains of \<open>*\<close>, \<open>C\<close>, \<open>N\<close> and \<open>O\<close> joined by
  single bonds: parsing numbers the atoms from left to right and bonds each to the
  next; writing walks the chain from its lowest-numbered end.
\<close>

definition atom_of_char :: "char \<Rightarrow> atom option" where
  "atom_of_char c =
     (if c = CHR ''*'' then Some \<lparr>AtomicNum = 0, atomNote = None\<rparr>
      else if c = CHR ''C'' then Some \<lparr>AtomicNum = 6, atomNote = None\<rparr>
      else if c = CHR ''N'' then Some \<lparr>AtomicNum = 7, atomNote = None\<rparr>
      else if c = CHR ''O'' then Some \<lparr>AtomicNum = 8, atomNote = None\<rparr>
      else None)"

definition chain_parse :: "string \<Rightarrow> mol option" where
  "chain_parse s =
     (if s \<noteq> [] \<and> list_all (\<lambda>c. atom_of_char c \<noteq> None) s
      then Some \<lparr>atoms = concat (map (\<lambda>c. case atom_of_char c of None \<Rightarrow> [] | Some a \<Rightarrow> [a]) s),
                 bonds = map (\<lambda>k. (k, Suc k, SINGLE)) [0..<length s - 1]\<rparr>
      else None)"

definition atom_symbol :: "atom \<Rightarrow> char" where
  "atom_symbol a =
     (if AtomicNum a = 0 then CHR ''*'' else if AtomicNum a = 6 then CHR ''C''
      else if AtomicNum a = 7 then CHR ''N'' else if AtomicNum a = 8 then CHR ''O''
      else CHR ''?'')"

fun walk :: "mol \<Rightarrow> nat \<Rightarrow> nat list \<Rightarrow> nat \<Rightarrow> string" where
  "walk m 0 seen cur = []"
| "walk m (Suc k) seen cur =
     atom_symbol (atoms m ! cur) #
       (case filter (\<lambda>y. y \<notin> set (cur # seen)) (GetNeighbors m cur) of
          [] \<Rightarrow> []
        | y # _ \<Rightarrow> walk m k (cur # seen) y)"

definition chain_notation :: "mol \<Rightarrow> string" where
  "chain_notation m =
     (case filter (\<lambda>i. length (GetNeighbors m i) \<le> 1) [0..<length (atoms m)] of
        [] \<Rightarrow> []
      | s # _ \<Rightarrow> walk m (length (atoms m)) [] s)"

definition demo_env :: env where
  "demo_env =
     \<lparr>monomer_dict = [''Ethylene'' \<mapsto> ''CC''],
      init_dict = [''Hydrogen'' \<mapsto> ''''],
      MolFromSmiles = chain_parse,
      MolToSmiles = chain_notation,
      preview_error = (\<lambda>s. None),
      optPol_outcome = (\<lambda>s. case chain_parse s of
                               None \<Rightarrow> Inl (TypeError ''SanitizeMol'')
                             | Some m \<Rightarrow> Inr (m, m))\<rparr>"

section \<open>Properties\<close>

text \<open>
  C10. Called with neither repeat form (both \<open>None\<close>), or with \<open>single = None\<close> and an
  empty token list, \<open>getRepeatUnit\<close> raises IndexError from indexing the empty filtered
  list, not the descriptive TypeError of the both-supplied case: whenever at most one
  form is supplied and every supplied value is falsy, the outcome is IndexError, and a
  truthy value is selected as it stands.
\<close>

theorem getRepeatUnit_falsy_IndexError:
  "getRepeatUnit PyNone PyNone = Inl IndexError
   \<and> getRepeatUnit PyNone (PyList []) = Inl IndexError
   \<and> getRepeatUnit PyNone (PyList []) \<noteq> Inl (TypeError both_forms_msg)
   \<and> getRepeatUnit PyNone PyNone \<noteq> Inl (TypeError both_forms_msg)
   \<and> ((single = PyNone \<or> super = PyNone) \<and> \<not> truthy single \<and> \<not> truthy super
        \<longrightarrow> getRepeatUnit single super = Inl IndexError)
   \<and> (single \<noteq> PyNone \<and> super \<noteq> PyNone
        \<longrightarrow> getRepeatUnit single super = Inl (TypeError both_forms_msg))
   \<and> (super = PyNone \<and> truthy single \<longrightarrow> getRepeatUnit single super = Inr single)
   \<and> (single = PyNone \<and> truthy super \<longrightarrow> getRepeatUnit single super = Inr super)"
  by (auto simp: getRepeatUnit_def)

theorem getRepeatUnit_falsy_IndexError_witness:
  "getRepeatUnit (PyStr []) PyNone = Inl IndexError
   \<and> getRepeatUnit (PyStr ''Styrene'') (PyList [''2'', ''CC'']) = Inl (TypeError both_forms_msg)
   \<and> getRepeatUnit (PyStr ''Styrene'') PyNone = Inr (PyStr ''Styrene'')
   \<and> getRepeatUnit PyNone (PyList [''2'', ''CC'']) = Inr (PyList [''2'', ''CC''])"
  using getRepeatUnit_falsy_IndexError [of "PyStr []" PyNone]
    getRepeatUnit_falsy_IndexError [of "PyStr ''Styrene''" "PyList [''2'', ''CC'']"]
    getRepeatUnit_falsy_IndexError [of "PyStr ''Styrene''" PyNone]
    getRepeatUnit_falsy_IndexError [of PyNone "PyList [''2'', ''CC'']"]
  by simp

subsection \<open>End-group validation\<close>

lemma strip_markers_id: "CHR ''*'' \<notin> set s \<Longrightarrow> strip_markers s = s"
  by (auto simp: strip_markers_def filter_id_conv)

lemma msgs_differ: "role_msg \<noteq> not_symmetric_msg"
  by (simp add: role_msg_def not_symmetric_msg_def)

text \<open>
  C3. With a role flag set and a fragment whose boundary character (the first when
  \<open>Init\<close> is set, the last otherwise) is not the marker, or an empty fragment,
  \<open>validate_end_group\<close> raises exactly when the fragment differs from its reversal and
  contains no marker, and the error is the validation error; otherwise it returns the
  fragment with every marker removed: a palindromic fragment without marker comes back
  unchanged, and so does the empty fragment.
\<close>

theorem validate_end_group_unmarked_boundary:
  assumes role: "Init \<or> Term"
    and boundary: "inator = [] \<or> boundary_char Init inator \<noteq> CHR ''*''"
  shows "((\<exists>e. validate_end_group E inator Init Term = Inl e)
            \<longleftrightarrow> (inator \<noteq> rev inator \<and> CHR ''*'' \<notin> set inator))
       \<and> (inator \<noteq> rev inator \<and> CHR ''*'' \<notin> set inator
            \<longrightarrow> validate_end_group E inator Init Term = Inl (ValueError not_symmetric_msg))
       \<and> (\<not> (inator \<noteq> rev inator \<and> CHR ''*'' \<notin> set inator)
            \<longrightarrow> validate_end_group E inator Init Term = Inr (Smiles (strip_markers inator)))
       \<and> (inator = rev inator \<and> CHR ''*'' \<notin> set inator
            \<longrightarrow> validate_end_group E inator Init Term = Inr (Smiles inator))
       \<and> (inator = [] \<longrightarrow> validate_end_group E inator Init Term = Inr (Smiles []))"
  using role boundary
  by (auto simp: validate_end_group_def strip_markers_id)

theorem validate_end_group_unmarked_boundary_witness:
  "validate_end_group demo_env ''CO'' True False = Inl (ValueError not_symmetric_msg)
   \<and> validate_end_group demo_env ''CO'' False True = Inl (ValueError not_symmetric_msg)
   \<and> validate_end_group demo_env ''OCO'' True False = Inr (Smiles ''OCO'')
   \<and> validate_end_group demo_env ''N*'' True False = Inr (Smiles ''N'')
   \<and> validate_end_group demo_env ''*C*C'' False True = Inr (Smiles ''CC'')
   \<and> validate_end_group demo_env '''' False True = Inr (Smiles '''')"
  using validate_end_group_unmarked_boundary [of True False "''CO''" demo_env]
    validate_end_group_unmarked_boundary [of False True "''CO''" demo_env]
    validate_end_group_unmarked_boundary [of True False "''OCO''" demo_env]
    validate_end_group_unmarked_boundary [of True False "''N*''" demo_env]
    validate_end_group_unmarked_boundary [of False True "''*C*C''" demo_env]
    validate_end_group_unmarked_boundary [of False True "''''" demo_env]
  by (simp add: boundary_char_def strip_markers_def)

text \<open>
  C4. The guard of \<open>validate_end_group\<close> rejects only the case of no role flag. With
  both flags set no error is raised: the fragment is validated as an initiator.
\<close>

theorem validate_end_group_both_flags_counterexample:
  "validate_end_group demo_env ''OCO'' True True = Inr (Smiles ''OCO'')
   \<and> validate_end_group demo_env '''' True True = Inr (Smiles '''')"
  by (simp add: validate_end_group_def boundary_char_def strip_markers_def)

text \<open>
  C4, as the code has it: \<open>validate_end_group\<close> fails with the configuration error
  exactly when neither role flag is set; with both flags set it does what it does for
  an initiator.
\<close>

theorem validate_end_group_role_flags:
  "(validate_end_group E inator Init Term = Inl (ValueError role_msg) \<longleftrightarrow> \<not> Init \<and> \<not> Term)
   \<and> validate_end_group E inator True True = validate_end_group E inator True False"
  using msgs_differ by (auto simp: validate_end_group_def boundary_char_def)

theorem validate_end_group_role_flags_witness:
  "validate_end_group demo_env ''OCO'' False False = Inl (ValueError role_msg)
   \<and> validate_end_group demo_env ''CO'' True False \<noteq> Inl (ValueError role_msg)
   \<and> validate_end_group demo_env ''CO'' False True \<noteq> Inl (ValueError role_msg)
   \<and> validate_end_group demo_env ''CO'' True True \<noteq> Inl (ValueError role_msg)"
  using validate_end_group_role_flags [of demo_env "''OCO''" False False]
    validate_end_group_role_flags [of demo_env "''CO''" True False]
    validate_end_group_role_flags [of demo_env "''CO''" False True]
    validate_end_group_role_flags [of demo_env "''CO''" True True]
  by simp

subsection \<open>Building blocks\<close>

text \<open>
  C5. A single key is looked up in the monomer table without a fallback: a key the
  table does not have is a KeyError, it is not taken as raw notation.
\<close>

theorem single_key_unknown_counterexample:
  "monomer_dict demo_env ''CC'' = None
   \<and> get_building_blocks demo_env ''Hydrogen'' ''Hydrogen'' (PyStr ''CC'') = Inl (KeyError ''CC'')"
  by (simp add: get_building_blocks_def monomer_smi_lookup_def demo_env_def inator_smi_lookup_def
      lookup_or_literal_def)

text \<open>
  C5, as the code has it: for a single key the resolver raises KeyError when the key is
  not in the monomer table; when it returns, the fragment is the table's entry for the
  key and monomers-per-repeat is 1; and it returns whenever the key is in the table
  and both end groups validate.
\<close>

theorem single_key_lookup:
  "(monomer_dict E key = None
      \<longrightarrow> get_building_blocks E i t (PyStr key) = Inl (KeyError key))
   \<and> (get_building_blocks E i t (PyStr key) = Inr (init, term, repeat_unit, monomers_per_n)
      \<longrightarrow> monomer_dict E key = Some repeat_unit \<and> monomers_per_n = 1)
   \<and> (monomer_dict E key = Some v
       \<and> validate_end_group E (lookup_or_literal (init_dict E) i) True False = Inr init
       \<and> validate_end_group E (lookup_or_literal (init_dict E) t) False True = Inr term
      \<longrightarrow> get_building_blocks E i t (PyStr key) = Inr (init, term, v, 1))"
  by (auto simp: get_building_blocks_def monomer_smi_lookup_def inator_smi_lookup_def
      split: option.splits sum.splits)

theorem single_key_lookup_witness:
  "get_building_blocks demo_env ''Hydrogen'' ''Hydrogen'' (PyStr ''Ethylene'')
     = Inr (Smiles '''', Smiles '''', ''CC'', 1)
   \<and> get_building_blocks demo_env ''Hydrogen'' ''Hydrogen'' (PyStr ''Propylene'')
     = Inl (KeyError ''Propylene'')"
proof -
  have v1: "validate_end_group demo_env (lookup_or_literal (init_dict demo_env) ''Hydrogen'') True False
      = Inr (Smiles '''')"
    by (simp add: validate_end_group_def demo_env_def lookup_or_literal_def strip_markers_def)
  have v2: "validate_end_group demo_env (lookup_or_literal (init_dict demo_env) ''Hydrogen'') False True
      = Inr (Smiles '''')"
    by (simp add: validate_end_group_def demo_env_def lookup_or_literal_def strip_markers_def)
  have d1: "monomer_dict demo_env ''Ethylene'' = Some ''CC''" by (simp add: demo_env_def)
  have d2: "monomer_dict demo_env ''Propylene'' = None" by (simp add: demo_env_def)
  show ?thesis
    using single_key_lookup [of demo_env "''Ethylene''" "''Hydrogen''" "''Hydrogen''" "Smiles ''''"
        "Smiles ''''" "''CC''" 1 "''CC''"]
      single_key_lookup [of demo_env "''Propylene''" "''Hydrogen''" "''Hydrogen''"]
      v1 v2 d1 d2 by simp
qed

lemma explicit_coefs_length:
  "explicit_coefs xs = Inr ks \<Longrightarrow> length ks = length xs"
  by (induction xs arbitrary: ks) (auto split: sum.splits if_splits option.splits)

lemma implicit_coefs_always_zero:
  "super_monomer E m = Inr (u, k) \<Longrightarrow>
   \<exists>coefs. explicit_coefs (deciphered_dict_keys E m) = Inr coefs \<and> k = sum_list coefs"
  by (auto simp: super_monomer_def Let_def explicit_coefs_length split: sum.splits)

text \<open>
  C1. For the token list \<open>2 CC CO\<close> the count returned is 2, where the sum of the
  multipliers applied is 3; for \<open>CC CO\<close> (no explicit multiplier) it is 0, where the
  number of tokens is 2. The list of explicit coefficients has one entry per token, so
  the number of implicit coefficients computed from the two lengths is always 0.
\<close>

theorem super_monomer_count_2AB:
  "get_building_blocks demo_env ''Hydrogen'' ''Hydrogen'' (PyList [''2'', ''CC'', ''CO''])
     = Inr (Smiles '''', Smiles '''', ''CCCCCO'', 2)
   \<and> get_building_blocks demo_env ''Hydrogen'' ''Hydrogen'' (PyList [''CC'', ''CO''])
     = Inr (Smiles '''', Smiles '''', ''CCCO'', 0)"
  by code_simp













subsection \<open>Chain notation\<close>

lemma add_inator_plan_plain:
  "add_inator_plan smi (Smiles a) (Smiles b) = Spliced (a @ smi @ b)"
  by (simp add: add_inator_plan_def)

text \<open>
  C6. When both validated end groups are plain text, \<open>add_inator_smiles\<close> decides for
  splicing and \<open>attatch_frags\<close> is not called, for every chain length \<open>n\<close>: the final
  notation is the initiator fragment, the repeat fragment \<open>n\<close> times, and the terminator
  fragment, in this order (and the preview notation is the same with one repeat).
\<close>

theorem plain_end_groups_fast_path:
  "get_building_blocks E i t r = Inr (Smiles a, Smiles b, u, k) \<Longrightarrow>
     add_inator_plan (py_str_mul n u) (Smiles a) (Smiles b) = Spliced (a @ py_str_mul n u @ b)
     \<and> createPolymerSMILES E i n r t False = Inr (Plain (a @ py_str_mul n u @ b) k)
     \<and> createPolymerSMILES E i n r t True
         = Inr (WithTest (a @ u @ b) (a @ py_str_mul n u @ b) k)"
  by (simp add: createPolymerSMILES_def add_inator_smiles_def add_inator_plan_plain)

theorem plain_end_groups_fast_path_witness:
  "get_building_blocks demo_env ''O*'' ''*N'' (PyStr ''Ethylene'')
     = Inr (Smiles ''O'', Smiles ''N'', ''CC'', 1)
   \<and> add_inator_plan (py_str_mul 3 ''CC'') (Smiles ''O'') (Smiles ''N'') = Spliced ''OCCCCCCN''
   \<and> createPolymerSMILES demo_env ''O*'' 3 (PyStr ''Ethylene'') ''*N'' False
       = Inr (Plain ''OCCCCCCN'' 1)
   \<and> createPolymerSMILES demo_env ''O*'' 3 (PyStr ''Ethylene'') ''*N'' True
       = Inr (WithTest ''OCCN'' ''OCCCCCCN'' 1)"
proof -
  have g: "get_building_blocks demo_env ''O*'' ''*N'' (PyStr ''Ethylene'')
     = Inr (Smiles ''O'', Smiles ''N'', ''CC'', 1)"
    by code_simp
  have m: "py_str_mul 3 ''CC'' = ''CCCCCC''" by code_simp
  show ?thesis
    using plain_end_groups_fast_path [OF g, of 3] g m by simp
qed

subsection \<open>The chain-family driver\<close>

lemma createPolymerSMILES_False_form:
  "createPolymerSMILES E i j r t False = Inr x \<Longrightarrow> \<exists>s m. x = Plain s m"
  by (auto simp: createPolymerSMILES_def Let_def split: sum.splits prod.splits)

lemma createPolymerSMILES_True_form:
  "createPolymerSMILES E i j r t True = Inr x \<Longrightarrow>
     \<exists>ts s m. x = WithTest ts s m \<and> createPolymerSMILES E i j r t False = Inr (Plain s m)"
  by (auto simp: createPolymerSMILES_def Let_def split: sum.splits prod.splits)

lemma py_str_mul_1: "py_str_mul 1 u = u"
  by (simp add: py_str_mul_def)

lemma createPolymerSMILES_one:
  "createPolymerSMILES E i 1 r t True =
     (case createPolymerSMILES E i 1 r t False of
        Inl e \<Rightarrow> Inl e
      | Inr (Plain s m) \<Rightarrow> Inr (WithTest s s m)
      | Inr (WithTest a b c) \<Rightarrow> Inr (WithTest a b c))"
  by (auto simp: createPolymerSMILES_def Let_def py_str_mul_1 split: sum.splits prod.splits)

lemma createPolymerSMILES_shared_count:
  "createPolymerSMILES E i j r t False = Inr (Plain s m) \<Longrightarrow>
   createPolymerSMILES E i j' r t False = Inr (Plain s' m') \<Longrightarrow> m = m'"
  by (auto simp: createPolymerSMILES_def Let_def split: sum.splits prod.splits)

lemma plot_loop_plain_step:
  assumes "1 < j \<or> \<not> confirm"
  shows "plot_loop E i r t confirm (j # js) st w =
     (case row_of E i r t j of
        Inl e \<Rightarrow> (Inl e, w\<lparr>trace := trace w @ plain_events E i r t [j]\<rparr>)
      | Inr row \<Rightarrow>
          plot_loop E i r t confirm js (add_row st row)
            (w\<lparr>trace := trace w @ plain_events E i r t [j]\<rparr>))"
proof -
  have no: "\<not> (j = 1 \<and> confirm \<and> \<not> proceed_var st)" and yes: "1 < j \<or> \<not> confirm"
    using assms by auto
  show ?thesis
    by (simp only: plot_loop.simps no yes if_True if_False)
      (auto simp: row_of_def optPol_def split: sum.splits smiles_result.splits prod.splits)
qed


lemma plain_events_Cons:
  "plain_events E i r t (j # js) =
     plain_events E i r t [j] @
       (case row_of E i r t j of Inl e \<Rightarrow> [] | Inr row \<Rightarrow> plain_events E i r t js)"
  by (auto simp: row_of_def split: sum.splits smiles_result.splits prod.splits)

lemma plain_loop_fst:
  "\<forall>j\<in>set js. 1 < j \<or> \<not> confirm \<Longrightarrow>
   fst (plot_loop E i r t confirm js st w) =
     (case map_exn (row_of E i r t) js of
        Inl e \<Rightarrow> Inl e
      | Inr rows \<Rightarrow> Inr (foldl add_row st rows))"
proof (induction js arbitrary: st w)
  case Nil
  then show ?case by simp
next
  case (Cons j js)
  then have j: "1 < j \<or> \<not> confirm" and js: "\<forall>j\<in>set js. 1 < j \<or> \<not> confirm"
    by auto
  show ?case
    by (simp add: plot_loop_plain_step [OF j] Cons.IH [OF js] del: plot_loop.simps add_row.simps
        split: sum.splits)
qed

lemma plain_loop_snd:
  "\<forall>j\<in>set js. 1 < j \<or> \<not> confirm \<Longrightarrow>
   snd (plot_loop E i r t confirm js st w) = w\<lparr>trace := trace w @ plain_events E i r t js\<rparr>"
proof (induction js arbitrary: st w)
  case Nil
  then show ?case by simp
next
  case (Cons j js)
  then have j: "1 < j \<or> \<not> confirm" and js: "\<forall>j\<in>set js. 1 < j \<or> \<not> confirm"
    by auto
  show ?case
    by (simp add: plot_loop_plain_step [OF j] Cons.IH [OF js] plain_events_Cons [of E i r t j js]
        del: plot_loop.simps add_row.simps plain_events.simps split: sum.splits)
qed


lemma foldl_add_row_lists:
  "POL_LIST (foldl add_row st rows) = POL_LIST st @ map fst rows
   \<and> SMI_LIST (foldl add_row st rows) = SMI_LIST st @ map (fst \<circ> snd) rows
   \<and> Unopt_pols (foldl add_row st rows) = Unopt_pols st @ map (fst \<circ> snd \<circ> snd) rows
   \<and> m_per_n_var (foldl add_row st rows)
       = (if rows = [] then m_per_n_var st else Some (snd (snd (snd (last rows)))))"
  by (induction rows arbitrary: st) auto

lemma finish_family:
  "POL_LIST st = [] \<Longrightarrow> SMI_LIST st = [] \<Longrightarrow> Unopt_pols st = [] \<Longrightarrow> m_per_n_var st = None \<Longrightarrow>
   (case m_per_n_var (foldl add_row st rows) of
      None \<Rightarrow> Inl UnboundLocalError
    | Some m_per_n \<Rightarrow>
        Inr (Family (POL_LIST (foldl add_row st rows)) (SMI_LIST (foldl add_row st rows))
               (Unopt_pols (foldl add_row st rows)) m_per_n))
     = family_of_rows rows"
  by (simp add: foldl_add_row_lists family_of_rows_def)

lemma driver_quiet_plot:
  "make_One_or_More_Polymers E i n r t True False w =
     (family_result E i r t n, w\<lparr>trace := trace w @ plain_events E i r t [1..n]\<rparr>)"
proof -
  let ?st = "\<lparr>POL_LIST = [], SMI_LIST = [], Unopt_pols = [],
      proceed_var = (if False = True then False else True),
      smi_var = None, m_per_n_var = None\<rparr>"
  obtain res w1 where run: "plot_loop E i r t False [1..n] ?st w = (res, w1)"
    by (cases "plot_loop E i r t False [1..n] ?st w") auto
  have c: "\<forall>j\<in>set [1..n]. 1 < j \<or> \<not> False" by simp
  have res: "res = (case map_exn (row_of E i r t) [1..n] of
        Inl e \<Rightarrow> Inl e | Inr rows \<Rightarrow> Inr (foldl add_row ?st rows))"
    using plain_loop_fst [OF c, of E i r t ?st w] run by simp
  have w1: "w1 = w\<lparr>trace := trace w @ plain_events E i r t [1..n]\<rparr>"
    using plain_loop_snd [OF c, of E i r t ?st w] run by simp
  show ?thesis
  proof (cases "map_exn (row_of E i r t) [1..n]")
    case (Inl e)
    then show ?thesis
      using run res w1 by (simp add: make_One_or_More_Polymers_def family_result_def)
  next
    case (Inr rows)
    have "(case m_per_n_var (foldl add_row ?st rows) of
      None \<Rightarrow> Inl UnboundLocalError
    | Some m_per_n \<Rightarrow>
        Inr (Family (POL_LIST (foldl add_row ?st rows)) (SMI_LIST (foldl add_row ?st rows))
               (Unopt_pols (foldl add_row ?st rows)) m_per_n))
     = family_of_rows rows"
      by (rule finish_family) simp_all
    then show ?thesis
      using run res w1 Inr
      by (simp add: make_One_or_More_Polymers_def family_result_def split: option.splits)
  qed
qed


lemma confirmStructure_Inr:
  "confirmStructure E smi pr w = (Inr p, w1) \<Longrightarrow>
     preview_error E smi = None
     \<and> (\<exists>inp rest. stdin w = inp # rest \<and> accepted inp
           \<and> w1 = w\<lparr>trace := trace w @ [Preview smi], stdin := rest\<rparr>)
     \<and> p = (if pr \<noteq> None then Some True else None)"
  by (auto simp: confirmStructure_def Let_def split: option.splits list.splits if_splits)

lemma driver_plot_both:
  assumes n: "1 \<le> n"
    and st0: "st0 = \<lparr>POL_LIST = [], SMI_LIST = [], Unopt_pols = [], proceed_var = False,
      smi_var = None, m_per_n_var = None\<rparr>"
    and cps: "createPolymerSMILES E i 1 r t True = Inr (WithTest test_smi smi m)"
    and cs: "confirmStructure E test_smi (Some False) w = (Inr p, w1)"
  shows "(case plot_loop E i r t True [1..n] st0 w of
            (Inl e, w2) \<Rightarrow> (Inl e, w2)
          | (Inr st, w2) \<Rightarrow>
              (case m_per_n_var st of
                 None \<Rightarrow> (Inl UnboundLocalError, w2)
               | Some m_per_n \<Rightarrow>
                  (Inr (Family (POL_LIST st) (SMI_LIST st) (Unopt_pols st) m_per_n), w2)))
         = (family_result E i r t n, w1\<lparr>trace := trace w1 @ plain_events E i r t [1..n]\<rparr>)"
proof -
  have up: "[1..n] = 1 # [2..n]"
    using n by (simp add: upto_rec1)
  have js: "\<forall>j\<in>set [2..n]. 1 < j \<or> \<not> True" by auto
  have plain: "createPolymerSMILES E i 1 r t False = Inr (Plain smi m)"
    using createPolymerSMILES_True_form [OF cps] by simp
  have p: "p = Some True"
    using confirmStructure_Inr [OF cs] by simp
  show ?thesis
  proof (cases "optPol_outcome E smi")
    case (Inl e)
    note opt = Inl
    have rows: "map_exn (row_of E i r t) [1..n] = Inl e"
      by (simp add: up row_of_def plain opt)
    have ev: "plain_events E i r t [1..n] = [Embed smi]"
      by (simp add: up plain opt)
    have loop: "plot_loop E i r t True [1..n] st0 w = (Inl e, w1\<lparr>trace := trace w1 @ [Embed smi]\<rparr>)"
      by (simp add: up st0 cps cs optPol_def opt)
    show ?thesis
      unfolding loop by (simp add: family_result_def rows ev)
  next
    case (Inr pr)
    note opt = Inr
    obtain pol_h pol where pr: "pr = (pol_h, pol)" by (cases pr)
    let ?row = "(pol_h, smi, pol, m)"
    let ?st1 = "add_row (st0\<lparr>proceed_var := True\<rparr>) ?row"
    let ?w2 = "w1\<lparr>trace := trace w1 @ [Embed smi]\<rparr>"
    have row: "row_of E i r t 1 = Inr ?row"
      by (simp add: row_of_def plain opt pr)
    have step: "plot_loop E i r t True [1..n] st0 w = plot_loop E i r t True [2..n] ?st1 ?w2"
      by (simp add: up st0 cps cs optPol_def opt pr p)
    have f: "fst (plot_loop E i r t True [2..n] ?st1 ?w2) =
        (case map_exn (row_of E i r t) [2..n] of
           Inl e \<Rightarrow> Inl e | Inr rows \<Rightarrow> Inr (foldl add_row ?st1 rows))"
      by (rule plain_loop_fst [OF js])
    have s: "snd (plot_loop E i r t True [2..n] ?st1 ?w2) =
        ?w2\<lparr>trace := trace ?w2 @ plain_events E i r t [2..n]\<rparr>"
      by (rule plain_loop_snd [OF js])
    have ev: "plain_events E i r t [1..n] = Embed smi # plain_events E i r t [2..n]"
      by (simp add: up plain opt)
    have w2: "?w2\<lparr>trace := trace ?w2 @ plain_events E i r t [2..n]\<rparr>
        = w1\<lparr>trace := trace w1 @ plain_events E i r t [1..n]\<rparr>"
      by (simp add: ev)
    show ?thesis
    proof (cases "map_exn (row_of E i r t) [2..n]")
      case (Inl e)
      have rows: "map_exn (row_of E i r t) [1..n] = Inl e"
        by (simp add: up row Inl)
      have loop: "plot_loop E i r t True [1..n] st0 w
          = (Inl e, w1\<lparr>trace := trace w1 @ plain_events E i r t [1..n]\<rparr>)"
        unfolding step using f s Inl w2 by (simp add: prod_eq_iff)
      show ?thesis
        unfolding loop by (simp add: family_result_def rows)
    next
      case (Inr rows)
      have rows: "map_exn (row_of E i r t) [1..n] = Inr (?row # rows)"
        by (simp add: up row Inr)
      have loop: "plot_loop E i r t True [1..n] st0 w
          = (Inr (foldl add_row ?st1 rows), w1\<lparr>trace := trace w1 @ plain_events E i r t [1..n]\<rparr>)"
        unfolding step using f s Inr w2 by (simp add: prod_eq_iff)
      have fin: "(case m_per_n_var (foldl add_row st0 (?row # rows)) of
          None \<Rightarrow> Inl UnboundLocalError
        | Some m_per_n \<Rightarrow>
            Inr (Family (POL_LIST (foldl add_row st0 (?row # rows)))
                   (SMI_LIST (foldl add_row st0 (?row # rows)))
                   (Unopt_pols (foldl add_row st0 (?row # rows))) m_per_n))
         = family_of_rows (?row # rows)"
        by (rule finish_family) (simp_all add: st0)
      have lists: "POL_LIST (foldl add_row ?st1 rows) = POL_LIST (foldl add_row st0 (?row # rows))
        \<and> SMI_LIST (foldl add_row ?st1 rows) = SMI_LIST (foldl add_row st0 (?row # rows))
        \<and> Unopt_pols (foldl add_row ?st1 rows) = Unopt_pols (foldl add_row st0 (?row # rows))
        \<and> m_per_n_var (foldl add_row ?st1 rows) = m_per_n_var (foldl add_row st0 (?row # rows))"
        by (simp add: foldl_add_row_lists st0)
      show ?thesis
        unfolding loop using fin lists
        by (simp add: family_result_def rows del: foldl_Cons split: option.splits)
    qed
  qed
qed


lemma driver_confirm_plot:
  assumes n: "1 \<le> n"
  shows "make_One_or_More_Polymers E i n r t True True w =
     (case createPolymerSMILES E i 1 r t True of
        Inl e \<Rightarrow> (Inl e, w)
      | Inr (Plain s k) \<Rightarrow> (Inl (ValueError ''not enough values to unpack''), w)
      | Inr (WithTest test_smi smi m) \<Rightarrow>
          (case confirmStructure E test_smi (Some False) w of
             (Inl e, w1) \<Rightarrow> (Inl e, w1)
           | (Inr p, w1) \<Rightarrow>
               (family_result E i r t n, w1\<lparr>trace := trace w1 @ plain_events E i r t [1..n]\<rparr>)))"
proof -
  define st0 where "st0 = \<lparr>POL_LIST = [], SMI_LIST = [], Unopt_pols = [], proceed_var = False,
      smi_var = None, m_per_n_var = None\<rparr>"
  have up: "[1..n] = 1 # [2..n]"
    using n by (simp add: upto_rec1)
  have unfold: "make_One_or_More_Polymers E i n r t True True w =
      (case plot_loop E i r t True [1..n] st0 w of
            (Inl e, w2) \<Rightarrow> (Inl e, w2)
          | (Inr st, w2) \<Rightarrow>
              (case m_per_n_var st of
                 None \<Rightarrow> (Inl UnboundLocalError, w2)
               | Some m_per_n \<Rightarrow>
                  (Inr (Family (POL_LIST st) (SMI_LIST st) (Unopt_pols st) m_per_n), w2)))"
    by (simp add: make_One_or_More_Polymers_def st0_def)
  show ?thesis
  proof (cases "createPolymerSMILES E i 1 r t True")
    case (Inl e)
    have "plot_loop E i r t True [1..n] st0 w = (Inl e, w)"
      by (simp add: up st0_def Inl)
    then show ?thesis unfolding unfold by (simp add: Inl)
  next
    case (Inr x)
    then obtain test_smi smi m where x: "x = WithTest test_smi smi m"
      using createPolymerSMILES_True_form by blast
    note cps = Inr [unfolded x]
    obtain c w1 where cs: "confirmStructure E test_smi (Some False) w = (c, w1)"
      by (cases "confirmStructure E test_smi (Some False) w") auto
    show ?thesis
    proof (cases c)
      case (Inl e)
      have "plot_loop E i r t True [1..n] st0 w = (Inl e, w1)"
        using cs Inl by (simp add: up st0_def cps)
      then show ?thesis unfolding unfold using cs Inl by (simp add: cps)
    next
      case (Inr p)
      show ?thesis
        unfolding unfold
        using driver_plot_both [OF n st0_def cps cs [unfolded Inr]] cs Inr
        by (simp add: cps)
    qed
  qed
qed

lemma driver_plot_empty:
  "n < 1 \<Longrightarrow> make_One_or_More_Polymers E i n r t True confirm w = (Inl UnboundLocalError, w)"
  by (simp add: make_One_or_More_Polymers_def)

lemma map_exn_Inr_D:
  "map_exn f xs = Inr ys \<Longrightarrow> list_all2 (\<lambda>x y. f x = Inr y) xs ys"
  by (induction xs arbitrary: ys) (auto split: sum.splits)

lemma map_exn_Inr_I:
  "list_all2 (\<lambda>x y. f x = Inr y) xs ys \<Longrightarrow> map_exn f xs = Inr ys"
  by (induction rule: list_all2_induct) auto

lemma row_of_Inr:
  "row_of E i r t j = Inr (pol_h, smi, pol, m) \<longleftrightarrow>
     createPolymerSMILES E i j r t False = Inr (Plain smi m) \<and> optPol_outcome E smi = Inr (pol_h, pol)"
  by (auto simp: row_of_def split: sum.splits smiles_result.splits prod.splits)


lemma upto_1_nth: "k < nat n \<Longrightarrow> [1..n] ! k = int k + 1"
  by (simp add: nth_upto)

lemma family_result_Inr_D:
  assumes n: "1 \<le> n" and res: "family_result E i r t n = Inr res"
  shows "\<exists>pols smis unopts mpn. res = Family pols smis unopts mpn
           \<and> length pols = nat n \<and> length smis = nat n \<and> length unopts = nat n
           \<and> (\<forall>k<nat n. createPolymerSMILES E i (int k + 1) r t False = Inr (Plain (smis ! k) mpn)
                  \<and> optPol_outcome E (smis ! k) = Inr (pols ! k, unopts ! k))"
proof -
  from res obtain rows where rows: "map_exn (row_of E i r t) [1..n] = Inr rows"
    and fam: "family_of_rows rows = Inr res"
    by (auto simp: family_result_def split: sum.splits)
  have all2: "list_all2 (\<lambda>j row. row_of E i r t j = Inr row) [1..n] rows"
    by (rule map_exn_Inr_D [OF rows])
  then have len: "length rows = nat n"
    by (auto dest: list_all2_lengthD)
  have nonempty: "rows \<noteq> []"
    using len n by auto
  let ?mpn = "snd (snd (snd (last rows)))"
  have row: "row_of E i r t (int k + 1) = Inr (rows ! k)" if "k < nat n" for k
    using list_all2_nthD [OF all2, of k] that by (simp add: nth_upto add.commute)
  have each: "createPolymerSMILES E i (int k + 1) r t False
        = Inr (Plain (fst (snd (rows ! k))) (snd (snd (snd (rows ! k)))))
      \<and> optPol_outcome E (fst (snd (rows ! k))) = Inr (fst (rows ! k), fst (snd (snd (rows ! k))))"
    if "k < nat n" for k
  proof -
    obtain a b c d where abcd: "rows ! k = (a, b, c, d)" by (cases "rows ! k")
    show ?thesis using row [OF that] by (simp add: abcd row_of_Inr)
  qed
  have lastk: "last rows = rows ! (nat n - 1)"
    using nonempty len by (simp add: last_conv_nth)
  have shared: "snd (snd (snd (rows ! k))) = ?mpn" if "k < nat n" for k
  proof -
    have l: "nat n - 1 < nat n" using n by simp
    show ?thesis
      using each [OF that] each [OF l] createPolymerSMILES_shared_count lastk by metis
  qed
  have "res = Family (map fst rows) (map (fst \<circ> snd) rows) (map (fst \<circ> snd \<circ> snd) rows) ?mpn"
    using fam nonempty by (simp add: family_of_rows_def)
  moreover have "\<forall>k<nat n. createPolymerSMILES E i (int k + 1) r t False
        = Inr (Plain (map (fst \<circ> snd) rows ! k) ?mpn)
      \<and> optPol_outcome E (map (fst \<circ> snd) rows ! k)
        = Inr (map fst rows ! k, map (fst \<circ> snd \<circ> snd) rows ! k)"
    using each shared len by simp
  ultimately show ?thesis
    using len by (intro exI [where x = "map fst rows"] exI [where x = "map (fst \<circ> snd) rows"]
        exI [where x = "map (fst \<circ> snd \<circ> snd) rows"] exI [where x = ?mpn]) simp
qed

lemma family_result_Inr_I:
  assumes n: "1 \<le> n"
    and len: "length pols = nat n" "length smis = nat n" "length unopts = nat n"
    and each: "\<forall>k<nat n. createPolymerSMILES E i (int k + 1) r t False = Inr (Plain (smis ! k) mpn)
                  \<and> optPol_outcome E (smis ! k) = Inr (pols ! k, unopts ! k)"
  shows "family_result E i r t n = Inr (Family pols smis unopts mpn)"
proof -
  define rows where "rows = map (\<lambda>k. (pols ! k, smis ! k, unopts ! k, mpn)) [0..<nat n]"
  have lr: "length rows = nat n" by (simp add: rows_def)
  have "list_all2 (\<lambda>j row. row_of E i r t j = Inr row) [1..n] rows"
    unfolding list_all2_conv_all_nth
    using each by (simp add: rows_def nth_upto row_of_Inr add.commute)
  then have m: "map_exn (row_of E i r t) [1..n] = Inr rows"
    by (rule map_exn_Inr_I)
  have ne: "rows \<noteq> []" using lr n by auto
  have p: "map fst rows = pols"
    using len by (intro nth_equalityI) (simp_all add: rows_def)
  have s: "map (fst \<circ> snd) rows = smis"
    using len by (intro nth_equalityI) (simp_all add: rows_def)
  have u: "map (fst \<circ> snd \<circ> snd) rows = unopts"
    using len by (intro nth_equalityI) (simp_all add: rows_def)
  have l: "snd (snd (snd (last rows))) = mpn"
    using ne lr n by (simp add: last_conv_nth) (simp add: rows_def)
  show ?thesis
    by (simp add: family_result_def m family_of_rows_def ne p s u l)
qed


lemma family_labels_nth:
  "k < length pol \<Longrightarrow> family_labels pol mpn ! k = (int k + 1) * mpn"
  by (simp add: family_labels_def)

lemma family_driver_returns_D:
  assumes n: "1 \<le> n"
    and run: "make_One_or_More_Polymers E i n r t True confirm w = (Inr res, w')"
  shows "family_result E i r t n = Inr res"
proof (cases confirm)
  case False
  then show ?thesis
    using run by (simp add: driver_quiet_plot)
next
  case True
  then have c: "confirm = True" by simp
  show ?thesis
    using run unfolding c driver_confirm_plot [OF n]
    by (auto split: sum.splits smiles_result.splits prod.splits)
qed

lemma confirmStructure_accepted:
  "preview_error E smi = None \<Longrightarrow> stdin w = inp # rest \<Longrightarrow> accepted inp \<Longrightarrow>
   confirmStructure E smi pr w =
     (Inr (if pr \<noteq> None then Some True else None),
      w\<lparr>trace := trace w @ [Preview smi], stdin := rest\<rparr>)"
  by (simp add: confirmStructure_def)

text \<open>
  C8. For \<open>n \<ge> 1\<close> the family driver (\<open>plot\<close> set), when it returns, returns a family
  of exactly \<open>n\<close> optimised structures, \<open>n\<close> notations and \<open>n\<close> unoptimised structures with
  one monomers-per-repeat count; the entry at position \<open>k\<close> (from 0) is the chain built with
  \<open>k + 1\<close> repeat passes and its embedding, and its label is \<open>(k + 1) * mpn\<close>. Conversely,
  whenever the chains of length \<open>1..n\<close> can be built and embedded (and, with confirmation
  requested, the preview is shown and accepted), the driver returns this family.
\<close>

theorem chain_family_driver:
  assumes n: "1 \<le> n"
  shows "(make_One_or_More_Polymers E i n r t True confirm w = (Inr res, w') \<longrightarrow>
            (\<exists>pols smis unopts mpn. res = Family pols smis unopts mpn
              \<and> length pols = nat n \<and> length smis = nat n \<and> length unopts = nat n
              \<and> (\<forall>k<nat n.
                    createPolymerSMILES E i (int k + 1) r t False = Inr (Plain (smis ! k) mpn)
                    \<and> optPol_outcome E (smis ! k) = Inr (pols ! k, unopts ! k)
                    \<and> family_labels unopts mpn ! k = (int k + 1) * mpn)))
       \<and> (length ps = nat n \<and> length ss = nat n \<and> length us = nat n
          \<and> (\<forall>k<nat n.
                 createPolymerSMILES E i (int k + 1) r t False = Inr (Plain (ss ! k) m)
                 \<and> optPol_outcome E (ss ! k) = Inr (ps ! k, us ! k))
          \<and> (confirm \<longrightarrow> preview_error E (ss ! 0) = None
                \<and> (\<exists>inp rest. stdin w = inp # rest \<and> accepted inp))
          \<longrightarrow> fst (make_One_or_More_Polymers E i n r t True confirm w) = Inr (Family ps ss us m))"
proof (intro conjI impI)
  assume run: "make_One_or_More_Polymers E i n r t True confirm w = (Inr res, w')"
  have "family_result E i r t n = Inr res"
    by (rule family_driver_returns_D [OF n run])
  from family_result_Inr_D [OF n this]
  obtain pols smis unopts mpn where res: "res = Family pols smis unopts mpn"
    and len: "length pols = nat n" "length smis = nat n" "length unopts = nat n"
    and each: "\<forall>k<nat n. createPolymerSMILES E i (int k + 1) r t False = Inr (Plain (smis ! k) mpn)
                  \<and> optPol_outcome E (smis ! k) = Inr (pols ! k, unopts ! k)"
    by blast
  have "\<forall>k<nat n. family_labels unopts mpn ! k = (int k + 1) * mpn"
    using len by (simp add: family_labels_nth)
  with res len each
  show "\<exists>pols smis unopts mpn. res = Family pols smis unopts mpn
              \<and> length pols = nat n \<and> length smis = nat n \<and> length unopts = nat n
              \<and> (\<forall>k<nat n.
                    createPolymerSMILES E i (int k + 1) r t False = Inr (Plain (smis ! k) mpn)
                    \<and> optPol_outcome E (smis ! k) = Inr (pols ! k, unopts ! k)
                    \<and> family_labels unopts mpn ! k = (int k + 1) * mpn)"
    by blast
next
  assume a: "length ps = nat n \<and> length ss = nat n \<and> length us = nat n
          \<and> (\<forall>k<nat n.
                 createPolymerSMILES E i (int k + 1) r t False = Inr (Plain (ss ! k) m)
                 \<and> optPol_outcome E (ss ! k) = Inr (ps ! k, us ! k))
          \<and> (confirm \<longrightarrow> preview_error E (ss ! 0) = None
                \<and> (\<exists>inp rest. stdin w = inp # rest \<and> accepted inp))"
  then have fam: "family_result E i r t n = Inr (Family ps ss us m)"
    using family_result_Inr_I [OF n, of ps ss us E i r t m] by blast
  show "fst (make_One_or_More_Polymers E i n r t True confirm w) = Inr (Family ps ss us m)"
  proof (cases confirm)
    case False
    then show ?thesis by (simp add: driver_quiet_plot fam)
  next
    case True
    have "0 < nat n" using n by simp
    with a have "createPolymerSMILES E i (int 0 + 1) r t False = Inr (Plain (ss ! 0) m)"
      by blast
    then have one: "createPolymerSMILES E i 1 r t True = Inr (WithTest (ss ! 0) (ss ! 0) m)"
      by (simp add: createPolymerSMILES_one)
    from a True obtain inp rest where pe: "preview_error E (ss ! 0) = None"
      and inp: "stdin w = inp # rest" "accepted inp"
      by blast
    have c: "confirm = True" using True by simp
    show ?thesis
      unfolding c driver_confirm_plot [OF n]
      by (simp add: one confirmStructure_accepted [OF pe inp] fam)
  qed
qed

theorem chain_family_driver_witness:
  "(1::int) \<le> 3
   \<and> fst (make_One_or_More_Polymers demo_env ''*O'' 3 (PyStr ''Ethylene'') ''Hydrogen'' True True
          \<lparr>stdin = [''y''], trace = []\<rparr>)
       = Inr (Family (map (the \<circ> chain_parse) [''OCC'', ''OCCCC'', ''OCCCCCC''])
                [''OCC'', ''OCCCC'', ''OCCCCCC'']
                (map (the \<circ> chain_parse) [''OCC'', ''OCCCC'', ''OCCCCCC'']) 1)
   \<and> family_labels (map (the \<circ> chain_parse) [''OCC'', ''OCCCC'', ''OCCCCCC'']) 1 = [1, 2, 3]"
proof -
  let ?ss = "[''OCC'', ''OCCCC'', ''OCCCCCC'']"
  let ?ps = "map (the \<circ> chain_parse) ?ss"
  let ?w = "\<lparr>stdin = [''y''], trace = []\<rparr>"
  have n: "(1::int) \<le> 3" by simp
  have c0: "createPolymerSMILES demo_env ''*O'' 1 (PyStr ''Ethylene'') ''Hydrogen'' False
      = Inr (Plain ''OCC'' 1)" by code_simp
  have c1: "createPolymerSMILES demo_env ''*O'' 2 (PyStr ''Ethylene'') ''Hydrogen'' False
      = Inr (Plain ''OCCCC'' 1)" by code_simp
  have c2: "createPolymerSMILES demo_env ''*O'' 3 (PyStr ''Ethylene'') ''Hydrogen'' False
      = Inr (Plain ''OCCCCCC'' 1)" by code_simp
  have o0: "optPol_outcome demo_env ''OCC'' = Inr (?ps ! 0, ?ps ! 0)" by code_simp
  have o1: "optPol_outcome demo_env ''OCCCC'' = Inr (?ps ! 1, ?ps ! 1)" by code_simp
  have o2: "optPol_outcome demo_env ''OCCCCCC'' = Inr (?ps ! 2, ?ps ! 2)" by code_simp
  have each: "\<forall>k<nat 3.
      createPolymerSMILES demo_env ''*O'' (int k + 1) (PyStr ''Ethylene'') ''Hydrogen'' False
        = Inr (Plain (?ss ! k) 1)
      \<and> optPol_outcome demo_env (?ss ! k) = Inr (?ps ! k, ?ps ! k)"
  proof (intro allI impI)
    fix k :: nat
    assume "k < nat 3"
    then have "k = 0 \<or> k = 1 \<or> k = 2" by auto
    then show "createPolymerSMILES demo_env ''*O'' (int k + 1) (PyStr ''Ethylene'') ''Hydrogen'' False
        = Inr (Plain (?ss ! k) 1)
      \<and> optPol_outcome demo_env (?ss ! k) = Inr (?ps ! k, ?ps ! k)"
      using c0 c1 c2 o0 o1 o2 by auto
  qed
  have pe: "preview_error demo_env (?ss ! 0) = None" by (simp add: demo_env_def)
  have acc: "accepted ''y''" by code_simp
  have inp: "\<exists>inp rest. stdin ?w = inp # rest \<and> accepted inp"
    using acc by simp
  have lab: "family_labels ?ps 1 = [1, 2, 3]" by code_simp
  show ?thesis
    using chain_family_driver [OF n, of demo_env "''*O''" "PyStr ''Ethylene''" "''Hydrogen''" True ?w
        _ _ ?ps ?ss ?ps 1, THEN conjunct2] each pe inp lab
    by simp
qed

subsection \<open>Confirmation\<close>

lemma char_eq_code: "c = d \<longleftrightarrow> (of_char c :: nat) = of_char d"
  by simp

lemma lower_char_y: "lower_char c = CHR ''y'' \<longleftrightarrow> c = CHR ''y'' \<or> c = CHR ''Y''"
proof -
  define n where "n = (of_char c :: nat)"
  have cy: "c = CHR ''y'' \<longleftrightarrow> n = 121"
    unfolding n_def by (subst char_eq_code) simp
  have cY: "c = CHR ''Y'' \<longleftrightarrow> n = 89"
    unfolding n_def by (subst char_eq_code) simp
  have l: "(of_char (lower_char c) :: nat) =
      (if (65 \<le> n \<and> n \<le> 90) \<or> (192 \<le> n \<and> n \<le> 222 \<and> n \<noteq> 215) then n + 32 else n)"
    by (auto simp: lower_char_def Let_def n_def)
  have "lower_char c = CHR ''y'' \<longleftrightarrow> (of_char (lower_char c) :: nat) = 121"
    by (subst char_eq_code) simp
  then show ?thesis
    unfolding l cy cY by auto
qed

lemma accepted_iff: "accepted inp \<longleftrightarrow> inp = ''y'' \<or> inp = ''Y'' \<or> inp = []"
proof (cases inp)
  case Nil
  then show ?thesis by (simp add: accepted_def)
next
  case (Cons c cs)
  then show ?thesis
    using lower_char_y [of c] by (auto simp: accepted_def)
qed

lemma plain_events_embeds: "list_all is_Embed (plain_events E i r t js)"
  by (induction js) (auto split: sum.splits smiles_result.splits)

lemma test_notation_is_unit_chain:
  "createPolymerSMILES E i j r t True = Inr (WithTest ts s m) \<Longrightarrow>
   createPolymerSMILES E i 1 r t False = Inr (Plain ts m)"
  by (auto simp: createPolymerSMILES_def Let_def py_str_mul_1 split: sum.splits prod.splits)

lemma confirmation_step:
  assumes cs: "confirmStructure E ts pr w = (c, w1)"
    and run: "(res, w') = (case c of Inl e \<Rightarrow> (Inl e, w1) | Inr p \<Rightarrow> (rq, w1\<lparr>trace := trace w1 @ eq\<rparr>))"
    and eq: "list_all is_Embed eq"
  shows "\<exists>evs. trace w' = trace w @ evs
     \<and> (evs = [] \<or> (hd evs = Preview ts \<and> list_all is_Embed (tl evs)))
     \<and> (evs \<noteq> [] \<longrightarrow>
          (case stdin w of
             [] \<Rightarrow> res = Inl EOFError \<and> tl evs = []
           | inp # rest \<Rightarrow>
               stdin w' = rest \<and>
               (if accepted inp then res = rq \<and> tl evs = eq
                else res = Inl SystemExit \<and> tl evs = [])))"
proof (cases "preview_error E ts")
  case (Some e)
  then have "c = Inl e" "w1 = w"
    using cs by (simp_all add: confirmStructure_def)
  then have "w' = w" using run by simp
  then show ?thesis by (intro exI [where x = "[]"]) simp
next
  case None
  show ?thesis
  proof (cases "stdin w")
    case Nil
    then have "c = Inl EOFError" "w1 = w\<lparr>trace := trace w @ [Preview ts]\<rparr>"
      using cs None by (simp_all add: confirmStructure_def)
    then have "res = Inl EOFError" "w' = w\<lparr>trace := trace w @ [Preview ts]\<rparr>"
      using run by simp_all
    then show ?thesis
      using Nil by (intro exI [where x = "[Preview ts]"]) simp
  next
    case (Cons inp rest)
    show ?thesis
    proof (cases "accepted inp")
      case True
      then have "c = Inr (if pr \<noteq> None then Some True else None)"
        "w1 = w\<lparr>trace := trace w @ [Preview ts], stdin := rest\<rparr>"
        using cs None Cons by (simp_all add: confirmStructure_def)
      then have "res = rq" "w' = w\<lparr>trace := trace w @ [Preview ts], stdin := rest\<rparr>
            \<lparr>trace := trace (w\<lparr>trace := trace w @ [Preview ts], stdin := rest\<rparr>) @ eq\<rparr>"
        using run by simp_all
      then show ?thesis
        using Cons True eq by (intro exI [where x = "Preview ts # eq"]) simp
    next
      case False
      then have "c = Inl SystemExit"
        "w1 = w\<lparr>trace := trace w @ [Preview ts], stdin := rest\<rparr>"
        using cs None Cons by (simp_all add: confirmStructure_def)
      then have "res = Inl SystemExit" "w' = w\<lparr>trace := trace w @ [Preview ts], stdin := rest\<rparr>"
        using run by simp_all
      then show ?thesis
        using Cons False by (intro exI [where x = "[Preview ts]"]) simp
    qed
  qed
qed


lemma driver_single:
  "make_One_or_More_Polymers E i n r t False confirm w =
     (case createPolymerSMILES E i n r t True of
        Inl e \<Rightarrow> (Inl e, w)
      | Inr (Plain s k) \<Rightarrow> (Inl (ValueError ''not enough values to unpack''), w)
      | Inr (WithTest test_smi full_smi m) \<Rightarrow>
          (case (if confirm then confirmStructure E test_smi None w else (Inr None, w)) of
             (Inl e, w1) \<Rightarrow> (Inl e, w1)
           | (Inr p, w1) \<Rightarrow>
               ((case optPol_outcome E full_smi of
                   Inl e \<Rightarrow> Inl e
                 | Inr (pol_h, pol) \<Rightarrow> Inr (Single pol_h full_smi pol m)),
                w1\<lparr>trace := trace w1 @ [Embed full_smi]\<rparr>)))"
  by (auto simp: make_One_or_More_Polymers_def optPol_def
      split: sum.splits smiles_result.splits prod.splits)

lemma quiet_driver_trace:
  "\<exists>rq eq. make_One_or_More_Polymers E i n r t plot False w = (rq, w\<lparr>trace := trace w @ eq\<rparr>)
     \<and> list_all is_Embed eq"
proof (cases plot)
  case True
  then show ?thesis
    using driver_quiet_plot [of E i n r t w] plain_events_embeds [of E i r t "[1..n]"] by auto
next
  case False
  then have p: "plot = False" by simp
  show ?thesis
  proof (cases "createPolymerSMILES E i n r t True")
    case (Inl e)
    then have "make_One_or_More_Polymers E i n r t plot False w = (Inl e, w\<lparr>trace := trace w @ []\<rparr>)"
      unfolding p driver_single by simp
    then show ?thesis by (intro exI [where x = "[]"] exI) simp
  next
    case (Inr x)
    then obtain ts s m where x: "x = WithTest ts s m"
      using createPolymerSMILES_True_form by blast
    have "make_One_or_More_Polymers E i n r t plot False w =
        ((case optPol_outcome E s of
                   Inl e \<Rightarrow> Inl e
                 | Inr (pol_h, pol) \<Rightarrow> Inr (Single pol_h s pol m)),
         w\<lparr>trace := trace w @ [Embed s]\<rparr>)"
      unfolding p driver_single by (simp add: Inr x)
    then show ?thesis by (intro exI [where x = "[Embed s]"] exI) simp
  qed
qed

lemma trace_unchanged: "w = w\<lparr>trace := trace w @ eq\<rparr> \<Longrightarrow> eq = []"
  by (drule arg_cong [of _ _ trace]) simp

lemma trace_append_eq:
  "w\<lparr>trace := trace w @ a\<rparr> = w\<lparr>trace := trace w @ b\<rparr> \<longleftrightarrow> a = b"
proof
  assume "w\<lparr>trace := trace w @ a\<rparr> = w\<lparr>trace := trace w @ b\<rparr>"
  then have "trace (w\<lparr>trace := trace w @ a\<rparr>) = trace (w\<lparr>trace := trace w @ b\<rparr>)"
    by (rule arg_cong)
  then show "a = b" by simp
qed simp

lemma confirm_driver_shape:
  "make_One_or_More_Polymers E i n r t plot False w = (rq, w\<lparr>trace := trace w @ eq\<rparr>) \<Longrightarrow>
   (make_One_or_More_Polymers E i n r t plot True w = make_One_or_More_Polymers E i n r t plot False w
      \<and> eq = [])
   \<or> (\<exists>ts m pr. createPolymerSMILES E i 1 r t False = Inr (Plain ts m)
         \<and> make_One_or_More_Polymers E i n r t plot True w =
             (case confirmStructure E ts pr w of
                (Inl e, w1) \<Rightarrow> (Inl e, w1)
              | (Inr p, w1) \<Rightarrow> (rq, w1\<lparr>trace := trace w1 @ eq\<rparr>)))"
proof (cases plot)
  case True
  then have p: "plot = True" by simp
  assume q: "make_One_or_More_Polymers E i n r t plot False w = (rq, w\<lparr>trace := trace w @ eq\<rparr>)"
  show ?thesis
  proof (cases "1 \<le> n")
    case False
    then have "n < 1" by simp
    then show ?thesis
      using q unfolding p by (auto simp: driver_plot_empty dest: trace_unchanged)
  next
    case n: True
    from q have rq: "rq = family_result E i r t n" and eq: "eq = plain_events E i r t [1..n]"
      unfolding p driver_quiet_plot by (simp_all add: trace_append_eq)
    show ?thesis
    proof (cases "createPolymerSMILES E i 1 r t True")
      case (Inl e)
      then have f: "createPolymerSMILES E i 1 r t False = Inl e"
        by (simp add: createPolymerSMILES_one split: sum.splits smiles_result.splits)
      have up: "[1..n] = 1 # [2..n]" using n by (simp add: upto_rec1)
      have "family_result E i r t n = Inl e" "plain_events E i r t [1..n] = []"
        by (simp_all add: family_result_def up row_of_def f)
      then show ?thesis
        unfolding p driver_confirm_plot [OF n] driver_quiet_plot
        by (simp add: Inl eq)
    next
      case (Inr x)
      then obtain ts s m where x: "x = WithTest ts s m"
        using createPolymerSMILES_True_form by blast
      have unit: "createPolymerSMILES E i 1 r t False = Inr (Plain ts m)"
        using test_notation_is_unit_chain Inr x by blast
      show ?thesis
        unfolding p driver_confirm_plot [OF n]
        by (intro disjI2 exI [where x = ts] exI [where x = m] exI [where x = "Some False"])
          (simp add: Inr x unit rq eq split: prod.splits sum.splits)
    qed
  qed
next
  case False
  then have p: "plot = False" by simp
  assume q: "make_One_or_More_Polymers E i n r t plot False w = (rq, w\<lparr>trace := trace w @ eq\<rparr>)"
  show ?thesis
  proof (cases "createPolymerSMILES E i n r t True")
    case (Inl e)
    then show ?thesis
      using q unfolding p driver_single by (auto dest: trace_unchanged)
  next
    case (Inr x)
    then obtain ts s m where x: "x = WithTest ts s m"
      using createPolymerSMILES_True_form by blast
    have unit: "createPolymerSMILES E i 1 r t False = Inr (Plain ts m)"
      using test_notation_is_unit_chain Inr x by blast
    from q have rq: "rq = (case optPol_outcome E s of
                   Inl e \<Rightarrow> Inl e
                 | Inr (pol_h, pol) \<Rightarrow> Inr (Single pol_h s pol m))" and eq: "eq = [Embed s]"
      unfolding p driver_single by (simp_all add: Inr x trace_append_eq)
    show ?thesis
      unfolding p driver_single
      by (intro disjI2 exI [where x = ts] exI [where x = m] exI [where x = None])
        (simp add: Inr x unit rq eq split: prod.splits sum.splits)
  qed
qed


lemma confirmation_gate_driver:
  assumes run: "make_One_or_More_Polymers E i n r t plot confirm w = (res, w')"
  shows "\<exists>evs. trace w' = trace w @ evs
      \<and> (\<not> confirm \<longrightarrow> list_all is_Embed evs \<and> stdin w' = stdin w)
      \<and> (confirm \<longrightarrow> evs = [] \<or>
            ((\<exists>ts m. createPolymerSMILES E i 1 r t False = Inr (Plain ts m) \<and> hd evs = Preview ts)
             \<and> list_all is_Embed (tl evs)))
      \<and> (confirm \<and> evs \<noteq> [] \<longrightarrow>
           (case stdin w of
              [] \<Rightarrow> res = Inl EOFError \<and> tl evs = []
            | inp # rest \<Rightarrow>
                stdin w' = rest \<and>
                (if inp = ''y'' \<or> inp = ''Y'' \<or> inp = []
                 then \<exists>wq. make_One_or_More_Polymers E i n r t plot False w = (res, wq)
                        \<and> trace wq = trace w @ tl evs
                 else res = Inl SystemExit \<and> tl evs = [])))"
proof -
  obtain rq eq where q: "make_One_or_More_Polymers E i n r t plot False w
        = (rq, w\<lparr>trace := trace w @ eq\<rparr>)"
    and e: "list_all is_Embed eq"
    using quiet_driver_trace by blast
  show ?thesis
  proof (cases confirm)
    case False
    then have "res = rq" "w' = w\<lparr>trace := trace w @ eq\<rparr>"
      using run q by simp_all
    then show ?thesis
      using False e by (intro exI [where x = eq]) simp
  next
    case True
    then have c: "confirm = True" by simp
    from confirm_driver_shape [OF q]
    consider (same) "make_One_or_More_Polymers E i n r t plot True w
          = make_One_or_More_Polymers E i n r t plot False w" "eq = []"
      | (gated) ts m pr where "createPolymerSMILES E i 1 r t False = Inr (Plain ts m)"
          "make_One_or_More_Polymers E i n r t plot True w =
             (case confirmStructure E ts pr w of
                (Inl e, w1) \<Rightarrow> (Inl e, w1)
              | (Inr p, w1) \<Rightarrow> (rq, w1\<lparr>trace := trace w1 @ eq\<rparr>))"
      by blast
    then show ?thesis
    proof cases
      case same
      then have "w' = w" using run q c by simp
      then show ?thesis by (intro exI [where x = "[]"]) simp
    next
      case gated
      obtain cr w1 where cs: "confirmStructure E ts pr w = (cr, w1)"
        by (cases "confirmStructure E ts pr w") auto
      have shape: "(res, w') =
          (case cr of Inl e \<Rightarrow> (Inl e, w1) | Inr p \<Rightarrow> (rq, w1\<lparr>trace := trace w1 @ eq\<rparr>))"
        using run gated(2) cs c by (simp split: sum.splits)
      from confirmation_step [OF cs shape e] obtain evs where tr: "trace w' = trace w @ evs"
        and first: "evs = [] \<or> (hd evs = Preview ts \<and> list_all is_Embed (tl evs))"
        and resp: "evs \<noteq> [] \<longrightarrow>
          (case stdin w of
             [] \<Rightarrow> res = Inl EOFError \<and> tl evs = []
           | inp # rest \<Rightarrow>
               stdin w' = rest \<and>
               (if accepted inp then res = rq \<and> tl evs = eq
                else res = Inl SystemExit \<and> tl evs = []))"
        by blast
      have "confirm \<and> evs \<noteq> [] \<longrightarrow>
           (case stdin w of
              [] \<Rightarrow> res = Inl EOFError \<and> tl evs = []
            | inp # rest \<Rightarrow>
                stdin w' = rest \<and>
                (if inp = ''y'' \<or> inp = ''Y'' \<or> inp = []
                 then \<exists>wq. make_One_or_More_Polymers E i n r t plot False w = (res, wq)
                        \<and> trace wq = trace w @ tl evs
                 else res = Inl SystemExit \<and> tl evs = []))"
        using resp q by (auto simp: accepted_iff split: list.splits)
      moreover have "confirm \<longrightarrow> evs = [] \<or>
            ((\<exists>ts m. createPolymerSMILES E i 1 r t False = Inr (Plain ts m) \<and> hd evs = Preview ts)
             \<and> list_all is_Embed (tl evs))"
        using first gated(1) by blast
      ultimately show ?thesis
        using tr c by (intro exI [where x = evs]) simp
    qed
  qed
qed


text \<open>
  C9. In every run (one chain or a family) the events logged are, unless the run is
  quiet, either none or the preview of the chain with one repeat followed by embedding
  calls only: the preview precedes all embedding and is shown at most once. Once the
  preview is shown, a closed input aborts with EOFError, the answers \<open>y\<close>, \<open>Y\<close> and the
  empty line let the run proceed to the outcome and the embedding calls of the quiet
  run, and any other answer ends the run with SystemExit and no embedding call. A quiet
  run shows no preview, reads no answer and only embeds.
\<close>

theorem confirmation_gate:
  assumes run: "main_build E i n single super t plot quiet w = (res, w')"
  shows "\<exists>evs. trace w' = trace w @ evs
      \<and> (quiet \<longrightarrow> list_all is_Embed evs \<and> stdin w' = stdin w)
      \<and> (\<not> quiet \<longrightarrow> evs = [] \<or>
            ((\<exists>r ts m. getRepeatUnit single super = Inr r
                 \<and> createPolymerSMILES E i 1 r t False = Inr (Plain ts m) \<and> hd evs = Preview ts)
             \<and> list_all is_Embed (tl evs)))
      \<and> (\<not> quiet \<and> evs \<noteq> [] \<longrightarrow>
           (case stdin w of
              [] \<Rightarrow> res = Inl EOFError \<and> tl evs = []
            | inp # rest \<Rightarrow>
                stdin w' = rest \<and>
                (if inp = ''y'' \<or> inp = ''Y'' \<or> inp = []
                 then \<exists>wq. main_build E i n single super t plot True w = (res, wq)
                        \<and> trace wq = trace w @ tl evs
                 else res = Inl SystemExit \<and> tl evs = [])))"
proof (cases "getRepeatUnit single super")
  case (Inl e)
  then have "w' = w" using run by (simp add: main_build_def)
  then show ?thesis by (intro exI [where x = "[]"]) simp
next
  case (Inr r)
  then have m: "main_build E i n single super t plot q w
      = make_One_or_More_Polymers E i n r t plot (\<not> q) w" for q
    by (simp add: main_build_def)
  from run have "make_One_or_More_Polymers E i n r t plot (\<not> quiet) w = (res, w')"
    by (simp add: m)
  from confirmation_gate_driver [OF this] obtain evs where
    "trace w' = trace w @ evs
      \<and> (\<not> \<not> quiet \<longrightarrow> list_all is_Embed evs \<and> stdin w' = stdin w)
      \<and> (\<not> quiet \<longrightarrow> evs = [] \<or>
            ((\<exists>ts m. createPolymerSMILES E i 1 r t False = Inr (Plain ts m) \<and> hd evs = Preview ts)
             \<and> list_all is_Embed (tl evs)))
      \<and> (\<not> quiet \<and> evs \<noteq> [] \<longrightarrow>
           (case stdin w of
              [] \<Rightarrow> res = Inl EOFError \<and> tl evs = []
            | inp # rest \<Rightarrow>
                stdin w' = rest \<and>
                (if inp = ''y'' \<or> inp = ''Y'' \<or> inp = []
                 then \<exists>wq. make_One_or_More_Polymers E i n r t plot False w = (res, wq)
                        \<and> trace wq = trace w @ tl evs
                 else res = Inl SystemExit \<and> tl evs = [])))"
    by blast
  moreover have "main_build E i n single super t plot True w
      = make_One_or_More_Polymers E i n r t plot False w"
    using m [of True] by simp
  ultimately show ?thesis
    using Inr by (intro exI [where x = evs]) (simp split: list.splits)
qed

theorem confirmation_gate_witness:
  "main_build demo_env ''*O'' 3 (PyStr ''Ethylene'') PyNone ''Hydrogen'' True False
       \<lparr>stdin = [''n''], trace = []\<rparr>
     = (Inl SystemExit, \<lparr>stdin = [], trace = [Preview ''OCC'']\<rparr>)
   \<and> main_build demo_env ''*O'' 2 (PyStr ''Ethylene'') PyNone ''Hydrogen'' False False
       \<lparr>stdin = [''Y''], trace = []\<rparr>
     = (Inr (Single (the (chain_parse ''OCCCC'')) ''OCCCC'' (the (chain_parse ''OCCCC'')) 1),
        \<lparr>stdin = [], trace = [Preview ''OCC'', Embed ''OCCCC'']\<rparr>)
   \<and> main_build demo_env ''*O'' 2 (PyStr ''Ethylene'') PyNone ''Hydrogen'' False True
       \<lparr>stdin = [''Y''], trace = []\<rparr>
     = (Inr (Single (the (chain_parse ''OCCCC'')) ''OCCCC'' (the (chain_parse ''OCCCC'')) 1),
        \<lparr>stdin = [''Y''], trace = [Embed ''OCCCC'']\<rparr>)
   \<and> (\<exists>evs. trace \<lparr>stdin = [], trace = [Preview ''OCC'']\<rparr> = [] @ evs \<and> tl evs = [])"
proof -
  have r1: "main_build demo_env ''*O'' 3 (PyStr ''Ethylene'') PyNone ''Hydrogen'' True False
       \<lparr>stdin = [''n''], trace = []\<rparr>
     = (Inl SystemExit, \<lparr>stdin = [], trace = [Preview ''OCC'']\<rparr>)"
    by code_simp
  have r2: "main_build demo_env ''*O'' 2 (PyStr ''Ethylene'') PyNone ''Hydrogen'' False False
       \<lparr>stdin = [''Y''], trace = []\<rparr>
     = (Inr (Single (the (chain_parse ''OCCCC'')) ''OCCCC'' (the (chain_parse ''OCCCC'')) 1),
        \<lparr>stdin = [], trace = [Preview ''OCC'', Embed ''OCCCC'']\<rparr>)"
    by code_simp
  have r3: "main_build demo_env ''*O'' 2 (PyStr ''Ethylene'') PyNone ''Hydrogen'' False True
       \<lparr>stdin = [''Y''], trace = []\<rparr>
     = (Inr (Single (the (chain_parse ''OCCCC'')) ''OCCCC'' (the (chain_parse ''OCCCC'')) 1),
        \<lparr>stdin = [''Y''], trace = [Embed ''OCCCC'']\<rparr>)"
    by code_simp
  from confirmation_gate [OF r1] obtain evs where
    "trace \<lparr>stdin = [], trace = [Preview ''OCC'']\<rparr> = trace \<lparr>stdin = [''n''], trace = []\<rparr> @ evs"
    and "\<not> False \<and> evs \<noteq> [] \<longrightarrow>
           (case stdin \<lparr>stdin = [''n''], trace = []\<rparr> of
              [] \<Rightarrow> (Inl SystemExit :: exn + polymers) = Inl EOFError \<and> tl evs = []
            | inp # rest \<Rightarrow>
                stdin \<lparr>stdin = [], trace = [Preview ''OCC'']\<rparr> = rest \<and>
                (if inp = ''y'' \<or> inp = ''Y'' \<or> inp = []
                 then \<exists>wq. main_build demo_env ''*O'' 3 (PyStr ''Ethylene'') PyNone ''Hydrogen''
                              True True \<lparr>stdin = [''n''], trace = []\<rparr> = (Inl SystemExit, wq)
                        \<and> trace wq = trace \<lparr>stdin = [''n''], trace = []\<rparr> @ tl evs
                 else (Inl SystemExit :: exn + polymers) = Inl SystemExit \<and> tl evs = []))"
    by blast
  then have "\<exists>evs. trace \<lparr>stdin = [], trace = [Preview ''OCC'']\<rparr> = [] @ evs \<and> tl evs = []"
    by (intro exI [where x = evs]) auto
  with r1 r2 r3 show ?thesis by blast
qed

subsection \<open>Structural fusion\<close>

lemma length_filter_indices:
  "length (filter (\<lambda>i. P (xs ! i)) [0..<length xs]) = length (filter P xs)"
proof -
  have "filter P xs = filter P (map ((!) xs) [0..<length xs])"
    by (simp add: map_nth)
  also have "\<dots> = map ((!) xs) (filter (P \<circ> (!) xs) [0..<length xs])"
    by (simp add: filter_map)
  finally show ?thesis by (simp add: comp_def)
qed

lemma length_dummy_indices:
  "length (dummy_indices m) = length (filter (\<lambda>a. AtomicNum a = 0) (atoms m))"
  unfolding dummy_indices_def by (rule length_filter_indices)

lemma dummy_indices_Cons_D:
  assumes "dummy_indices m = d # ds"
  shows "d < length (atoms m) \<and> AtomicNum (atoms m ! d) = 0"
proof -
  have "d \<in> set (dummy_indices m)" using assms by simp
  then show ?thesis by (simp add: dummy_indices_def)
qed

lemma RemoveAtom_dummy_count:
  assumes "dummy_indices m = d # ds"
  shows "length (dummy_indices (RemoveAtom m d)) = length ds"
proof -
  let ?P = "\<lambda>a. AtomicNum a = 0"
  from dummy_indices_Cons_D [OF assms] have d: "d < length (atoms m)" and z: "?P (atoms m ! d)"
    by simp_all
  have split: "atoms m = take d (atoms m) @ atoms m ! d # drop (Suc d) (atoms m)"
    using d by (rule id_take_nth_drop)
  have "length (filter ?P (atoms m)) =
      length (filter ?P (take d (atoms m))) + 1 + length (filter ?P (drop (Suc d) (atoms m)))"
    by (subst split) (simp add: z)
  moreover have "length (filter ?P (atoms m)) = Suc (length ds)"
    using assms length_dummy_indices [of m] by simp
  ultimately show ?thesis
    by (simp add: length_dummy_indices RemoveAtom_def)
qed






lemma map_update_same: "(map f xs)[i := f (xs ! i)] = map f xs"
proof (cases "i < length xs")
  case True
  then have "f (xs ! i) = map f xs ! i" by simp
  then show ?thesis by (simp only: list_update_id)
next
  case False
  then have "length (map f xs) \<le> i" by simp
  then show ?thesis by (rule list_update_beyond)
qed

lemma SetProp_simps:
  "bonds (SetProp m i v) = bonds m"
  "length (atoms (SetProp m i v)) = length (atoms m)"
  "map AtomicNum (atoms (SetProp m i v)) = map AtomicNum (atoms m)"
  by (simp_all add: SetProp_def map_update map_update_same)

lemma SetProp_note:
  "i < length (atoms m) \<Longrightarrow> atomNote (atoms (SetProp m i v) ! i) = Some v"
  "j \<noteq> i \<Longrightarrow> atomNote (atoms (SetProp m i v) ! j) = atomNote (atoms m ! j)"
  by (simp_all add: SetProp_def)


lemma CombineMols_simps:
  "atoms (CombineMols m1 m2) = atoms m1 @ atoms m2"
  "length (bonds (CombineMols m1 m2)) = length (bonds m1) + length (bonds m2)"
  by (simp_all add: CombineMols_def)

lemma CombineMols_SetProp_bonds:
  "bonds (CombineMols (SetProp m1 i v) m2) = bonds (CombineMols m1 m2)"
  by (simp add: CombineMols_def SetProp_simps)


lemma map_exn_Cons_D:
  "map_exn f xs = Inr (y # ys) \<Longrightarrow> \<exists>x xs'. xs = x # xs' \<and> f x = Inr y"
  by (cases xs) (auto split: sum.splits)

lemma fuse_one_D:
  assumes "fuse_one role ino rw = Inr rw'"
  shows "\<exists>inator d ds attatch a h m2.
      mol_of ino = Some inator
    \<and> dummy_indices inator = d # ds \<and> first_neighbor inator d = Inr attatch
    \<and> a \<in> set (noted (CombineMols (SetProp inator attatch ''attatch'') rw) ''attatch'')
    \<and> (\<exists>as. noted (CombineMols (SetProp inator attatch ''attatch'') rw) ''attatch'' = a # as)
    \<and> (\<exists>hs. noted (CombineMols (SetProp inator attatch ''attatch'') rw) (role_note role) = h # hs)
    \<and> AddBond (CombineMols (SetProp inator attatch ''attatch'') rw) h a SINGLE = Inr m2
    \<and> rw' = SetProp m2 a ''done''"
proof -
  from assms obtain inator where ino: "mol_of ino = Some inator"
    by (auto simp: fuse_one_def split: option.splits)
  from assms ino obtain attatch rest where
    nb: "map_exn (first_neighbor inator) (dummy_indices inator) = Inr (attatch # rest)"
    by (auto simp: fuse_one_def split: sum.splits list.splits)
  from map_exn_Cons_D [OF nb] obtain d ds where
    dd: "dummy_indices inator = d # ds" and fn: "first_neighbor inator d = Inr attatch"
    by blast
  let ?merged = "CombineMols (SetProp inator attatch ''attatch'') rw"
  from assms ino nb obtain a as where a: "noted ?merged ''attatch'' = a # as"
    by (auto simp: fuse_one_def Let_def split: list.splits)
  from assms ino nb a obtain h hs where h: "noted ?merged (role_note role) = h # hs"
    by (auto simp: fuse_one_def Let_def split: list.splits)
  from assms ino nb a h obtain m2 where
    ab: "AddBond ?merged h a SINGLE = Inr m2" and rw': "rw' = SetProp m2 a ''done''"
    by (auto simp: fuse_one_def Let_def split: sum.splits)
  show ?thesis
    using ino dd fn a h ab rw' by auto
qed


lemma AddBond_D:
  "AddBond m a b ty = Inr m2 \<Longrightarrow>
     a \<noteq> b \<and> a < length (atoms m) \<and> b < length (atoms m) \<and> \<not> bonded m a b
     \<and> m2 = m\<lparr>bonds := bonds m @ [(a, b, ty)]\<rparr>"
  by (auto simp: AddBond_def split: if_splits)

lemma role_note_not_attatch: "role_note role \<noteq> ''attatch''"
  by (cases role) simp_all


lemma upt_split_shift: "[0..<n + k] = [0..<n] @ map (\<lambda>i. i + n) [0..<k]"
proof -
  have "[0..<n + k] = [0..<n] @ [n..<n + k]"
    by (rule upt_add_eq_append) simp
  moreover have "map (\<lambda>i. i + n) [0..<k] = [n..<n + k]"
    using map_add_upt [of n k] by (simp only: add.commute [of k n] add_0)
  ultimately show ?thesis by (simp only:)
qed

lemma noted_CombineMols:
  "noted (CombineMols A B) v = noted A v @ map (\<lambda>i. i + length (atoms A)) (noted B v)"
proof -
  let ?n = "length (atoms A)" and ?k = "length (atoms B)"
  let ?P = "\<lambda>i. atomNote ((atoms A @ atoms B) ! i) = Some v"
  have l: "filter ?P [0..<?n] = filter (\<lambda>i. atomNote (atoms A ! i) = Some v) [0..<?n]"
    by (rule filter_cong) (simp_all add: nth_append)
  have r: "filter ?P (map (\<lambda>i. i + ?n) [0..<?k])
      = map (\<lambda>i. i + ?n) (filter (\<lambda>i. atomNote (atoms B ! i) = Some v) [0..<?k])"
    by (simp add: filter_map comp_def nth_append)
  have "noted (CombineMols A B) v = filter ?P [0..<?n + ?k]"
    by (simp add: noted_def CombineMols_def)
  also have "\<dots> = filter ?P [0..<?n] @ filter ?P (map (\<lambda>i. i + ?n) [0..<?k])"
    by (simp only: upt_split_shift filter_append)
  also have "\<dots> = noted A v @ map (\<lambda>i. i + ?n) (noted B v)"
    by (simp only: l r noted_def)
  finally show ?thesis .
qed

lemma filter_eq_index: "x < n \<Longrightarrow> filter (\<lambda>i. i = x) [0..<n] = [x]"
proof (induction n)
  case 0
  then show ?case by simp
next
  case (Suc n)
  show ?case
  proof (cases "x = n")
    case True
    have "filter (\<lambda>i. i = n) [0..<n] = []"
      by (simp add: filter_empty_conv)
    then show ?thesis using True by simp
  next
    case False
    then have "x < n" using Suc.prems by simp
    then show ?thesis using Suc.IH False by simp
  qed
qed

lemma noted_SetProp_unnoted:
  assumes "unnoted A" and "x < length (atoms A)"
  shows "noted (SetProp A x w) v = (if v = w then [x] else [])"
proof -
  have none: "atomNote (atoms A ! i) = None" if "i < length (atoms A)" for i
    using assms(1) that by (simp add: unnoted_def list_all_length)
  have "filter (\<lambda>i. atomNote (atoms (SetProp A x w) ! i) = Some v) [0..<length (atoms A)]
      = filter (\<lambda>i. i = x \<and> v = w) [0..<length (atoms A)]"
  proof (rule filter_cong [OF refl])
    fix i assume "i \<in> set [0..<length (atoms A)]"
    then have i: "i < length (atoms A)" by simp
    show "(atomNote (atoms (SetProp A x w) ! i) = Some v) = (i = x \<and> v = w)"
    proof (cases "i = x")
      case True
      then show ?thesis using SetProp_note(1) [OF assms(2), of w] by auto
    next
      case False
      then show ?thesis using SetProp_note(2) [OF False, of A w] none [OF i] by simp
    qed
  qed
  then show ?thesis
    using assms(2) by (simp add: noted_def SetProp_simps filter_eq_index)
qed

lemma first_neighbor_in_range:
  assumes "wf_bonds m" and "first_neighbor m x = Inr y"
  shows "y < length (atoms m)"
proof -
  let ?f = "\<lambda>(a, b, ty). if a = x then [b] else if b = x then [a::nat] else []"
  from assms(2) have "GetNeighbors m x \<noteq> [] \<and> y = hd (GetNeighbors m x)"
    by (cases "GetNeighbors m x") (simp_all add: first_neighbor_def)
  then have "y \<in> set (GetNeighbors m x)"
    using hd_in_set [of "GetNeighbors m x"] by blast
  then have "\<exists>bd\<in>set (bonds m). y \<in> set (?f bd)"
    by (simp only: GetNeighbors_def set_concat set_map UN_iff bex_simps image_iff)
  then obtain bd where bd: "bd \<in> set (bonds m)" and y: "y \<in> set (?f bd)"
    by blast
  obtain a b ty where abt: "bd = (a, b, ty)" by (cases bd)
  have ab: "a < length (atoms m) \<and> b < length (atoms m)"
    using assms(1) bd abt by (auto simp: wf_bonds_def list_all_iff)
  have "y = a \<or> y = b"
  proof (cases "a = x")
    case True
    then have "?f bd = [b]" by (simp add: abt)
    then show ?thesis using y by simp
  next
    case False
    show ?thesis
    proof (cases "b = x")
      case True
      then have "?f bd = [a]" using False by (simp add: abt)
      then show ?thesis using y by simp
    next
      case b: False
      have "?f bd = []" using False b by (simp add: abt)
      then show ?thesis using y by simp
    qed
  qed
  then show ?thesis using ab by auto
qed


lemma RemoveAtom_atoms_filter:
  assumes d: "d < length (atoms m)" and z: "AtomicNum (atoms m ! d) = 0"
  shows "filter (\<lambda>a. AtomicNum a \<noteq> 0) (atoms (RemoveAtom m d))
       = filter (\<lambda>a. AtomicNum a \<noteq> 0) (atoms m)"
proof -
  have split: "atoms m = take d (atoms m) @ atoms m ! d # drop (Suc d) (atoms m)"
    using d by (rule id_take_nth_drop)
  have "filter (\<lambda>a. AtomicNum a \<noteq> 0) (atoms m)
      = filter (\<lambda>a. AtomicNum a \<noteq> 0) (take d (atoms m))
        @ filter (\<lambda>a. AtomicNum a \<noteq> 0) (drop (Suc d) (atoms m))"
    by (subst split) (simp add: z)
  then show ?thesis by (simp add: RemoveAtom_def)
qed

lemma RemoveAtom_nth:
  assumes d: "d < length (atoms m)" and x: "x < length (atoms m)" and ne: "x \<noteq> d"
  shows "atoms (RemoveAtom m d) ! (if d < x then x - 1 else x) = atoms m ! x"
proof (cases "d < x")
  case True
  then have "atoms (RemoveAtom m d) ! (x - 1) = drop (Suc d) (atoms m) ! (x - 1 - d)"
    using d by (simp add: RemoveAtom_def nth_append)
  also have "\<dots> = atoms m ! x"
    using True x by simp
  finally show ?thesis using True by simp
next
  case False
  then have "x < d" using ne by simp
  then show ?thesis using d by (simp add: RemoveAtom_def nth_append)
qed

lemma RemoveAtom_real_index:
  assumes d: "d < length (atoms m)" and z: "AtomicNum (atoms m ! d) = 0"
    and x: "x < length (atoms m)" and ne: "x \<noteq> d"
  shows "real_index (RemoveAtom m d) (if d < x then x - 1 else x) = real_index m x"
proof (cases "d < x")
  case True
  let ?A = "atoms m"
  have t1: "take (x - 1) (take d ?A @ drop (Suc d) ?A) = take d ?A @ take (x - 1 - d) (drop (Suc d) ?A)"
    using True d by simp
  have split: "take x ?A = take d ?A @ ?A ! d # take (x - 1 - d) (drop (Suc d) ?A)"
  proof -
    have "take x ?A = take x (take d ?A @ ?A ! d # drop (Suc d) ?A)"
      using id_take_nth_drop [OF d] by simp
    also have "\<dots> = take d ?A @ take (x - d) (?A ! d # drop (Suc d) ?A)"
      using True d by simp
    also have "take (x - d) (?A ! d # drop (Suc d) ?A) = ?A ! d # take (x - 1 - d) (drop (Suc d) ?A)"
    proof -
      from True obtain k where k: "x - d = Suc k" by (cases "x - d") simp_all
      then have "x - 1 - d = k" by simp
      then show ?thesis by (simp add: k)
    qed
    finally show ?thesis .
  qed
  have "real_index (RemoveAtom m d) (x - 1)
      = length (filter (\<lambda>a. AtomicNum a \<noteq> 0) (take (x - 1) (take d ?A @ drop (Suc d) ?A)))"
    by (simp add: real_index_def RemoveAtom_def)
  also have "\<dots> = length (filter (\<lambda>a. AtomicNum a \<noteq> 0)
        (take d ?A @ take (x - 1 - d) (drop (Suc d) ?A)))"
    by (simp only: t1)
  also have "\<dots> = length (filter (\<lambda>a. AtomicNum a \<noteq> 0) (take x ?A))"
    by (simp only: split) (simp add: z)
  finally show ?thesis
    using True by (simp add: real_index_def)
next
  case False
  then have "x < d" using ne by simp
  then show ?thesis using d by (simp add: real_index_def RemoveAtom_def)
qed


lemma wf_bonds_D:
  "wf_bonds m \<Longrightarrow> (a, b, ty) \<in> set (bonds m) \<Longrightarrow> a < length (atoms m) \<and> b < length (atoms m)"
  by (auto simp: wf_bonds_def list_all_iff)

lemma wf_bonds_I:
  "(\<And>a b ty. (a, b, ty) \<in> set (bonds m) \<Longrightarrow> a < length (atoms m) \<and> b < length (atoms m))
   \<Longrightarrow> wf_bonds m"
  by (auto simp: wf_bonds_def list_all_iff)

lemma RemoveAtom_wf:
  assumes wf: "wf_bonds m" and d: "d < length (atoms m)"
  shows "wf_bonds (RemoveAtom m d)"
proof (rule wf_bonds_I)
  fix a b ty
  assume "(a, b, ty) \<in> set (bonds (RemoveAtom m d))"
  then obtain a0 b0 where in0: "(a0, b0, ty) \<in> set (bonds m)" and ne: "a0 \<noteq> d" "b0 \<noteq> d"
    and a: "a = (if d < a0 then a0 - 1 else a0)" and b: "b = (if d < b0 then b0 - 1 else b0)"
    by (auto simp: RemoveAtom_def)
  from wf_bonds_D [OF wf in0] have "a0 < length (atoms m)" "b0 < length (atoms m)" by simp_all
  then show "a < length (atoms (RemoveAtom m d)) \<and> b < length (atoms (RemoveAtom m d))"
    using ne a b d by (auto simp: RemoveAtom_def)
qed

lemma RemoveAtom_without_dummies:
  assumes wf: "wf_bonds m" and d: "d < length (atoms m)" and z: "AtomicNum (atoms m ! d) = 0"
  shows "without_dummies (RemoveAtom m d) = without_dummies m"
proof -
  let ?m' = "RemoveAtom m d"
  let ?dec = "\<lambda>x. if d < x then x - 1 else x"
  let ?D = "\<lambda>(a, b, ty). (?dec a, ?dec b, ty :: bond_type)"
  let ?Q = "\<lambda>(a, b, ty :: bond_type). a \<noteq> d \<and> b \<noteq> d"
  let ?P = "\<lambda>(a, b, ty :: bond_type). AtomicNum (atoms m ! a) \<noteq> 0 \<and> AtomicNum (atoms m ! b) \<noteq> 0"
  let ?P' = "\<lambda>(a, b, ty :: bond_type). AtomicNum (atoms ?m' ! a) \<noteq> 0 \<and> AtomicNum (atoms ?m' ! b) \<noteq> 0"
  let ?R = "\<lambda>(a, b, ty :: bond_type). (real_index m a, real_index m b, ty)"
  let ?R' = "\<lambda>(a, b, ty :: bond_type). (real_index ?m' a, real_index ?m' b, ty)"
  have bm': "bonds ?m' = map ?D (filter ?Q (bonds m))"
    by (simp add: RemoveAtom_def)
  have "map ?R' (filter ?P' (bonds ?m')) = map ?R' (map ?D (filter (?P' \<circ> ?D) (filter ?Q (bonds m))))"
    by (simp only: bm' filter_map)
  also have "\<dots> = map (?R' \<circ> ?D) (filter (\<lambda>bd. ?Q bd \<and> (?P' \<circ> ?D) bd) (bonds m))"
    by (simp only: map_map filter_filter)
  also have "filter (\<lambda>bd. ?Q bd \<and> (?P' \<circ> ?D) bd) (bonds m) = filter ?P (bonds m)"
  proof (rule filter_cong [OF refl])
    fix bd assume bd: "bd \<in> set (bonds m)"
    obtain a b ty where abt: "bd = (a, b, ty)" by (cases bd)
    from wf_bonds_D [OF wf bd [unfolded abt]] have r: "a < length (atoms m)" "b < length (atoms m)"
      by simp_all
    show "(?Q bd \<and> (?P' \<circ> ?D) bd) = ?P bd"
    proof (cases "a \<noteq> d \<and> b \<noteq> d")
      case True
      then show ?thesis
        using RemoveAtom_nth [OF d r(1)] RemoveAtom_nth [OF d r(2)] by (simp add: abt)
    next
      case False
      then show ?thesis using z by (auto simp: abt)
    qed
  qed
  also have "map (?R' \<circ> ?D) (filter ?P (bonds m)) = map ?R (filter ?P (bonds m))"
  proof (rule map_cong [OF refl])
    fix bd assume "bd \<in> set (filter ?P (bonds m))"
    then have bd: "bd \<in> set (bonds m)" and p: "?P bd" by simp_all
    obtain a b ty where abt: "bd = (a, b, ty)" by (cases bd)
    from wf_bonds_D [OF wf bd [unfolded abt]] have r: "a < length (atoms m)" "b < length (atoms m)"
      by simp_all
    from p z have ne: "a \<noteq> d" "b \<noteq> d" by (auto simp: abt)
    show "(?R' \<circ> ?D) bd = ?R bd"
      using RemoveAtom_real_index [OF d z r(1) ne(1)] RemoveAtom_real_index [OF d z r(2) ne(2)]
      by (simp add: abt)
  qed
  finally have b: "bonds (without_dummies ?m') = bonds (without_dummies m)"
    by (simp add: without_dummies_def)
  have a: "atoms (without_dummies ?m') = atoms (without_dummies m)"
    using RemoveAtom_atoms_filter [OF d z] by (simp add: without_dummies_def)
  show ?thesis using a b by simp
qed

lemma without_dummies_id:
  assumes wf: "wf_bonds m" and none: "dummy_indices m = []"
  shows "without_dummies m = m"
proof -
  have all: "\<forall>x<length (atoms m). AtomicNum (atoms m ! x) \<noteq> 0"
    using none by (auto simp: dummy_indices_def filter_empty_conv)
  then have f: "filter (\<lambda>a. AtomicNum a \<noteq> 0) (atoms m) = atoms m"
    by (auto simp: filter_id_conv in_set_conv_nth)
  have ri: "real_index m x = x" if "x < length (atoms m)" for x
  proof -
    have "filter (\<lambda>a. AtomicNum a \<noteq> 0) (take x (atoms m)) = take x (atoms m)"
      using all that by (auto simp: filter_id_conv in_set_conv_nth)
    then show ?thesis using that by (simp add: real_index_def)
  qed
  let ?P = "\<lambda>(a, b, ty :: bond_type). AtomicNum (atoms m ! a) \<noteq> 0 \<and> AtomicNum (atoms m ! b) \<noteq> 0"
  let ?R = "\<lambda>(a, b, ty :: bond_type). (real_index m a, real_index m b, ty)"
  have "filter ?P (bonds m) = bonds m"
    unfolding filter_id_conv using wf_bonds_D [OF wf] all by auto
  moreover have "map ?R (bonds m) = map id (bonds m)"
  proof (rule map_cong [OF refl])
    fix bd assume bd: "bd \<in> set (bonds m)"
    obtain a b ty where abt: "bd = (a, b, ty)" by (cases bd)
    from wf_bonds_D [OF wf bd [unfolded abt]] show "?R bd = id bd"
      by (simp add: abt ri)
  qed
  ultimately have "bonds (without_dummies m) = bonds m"
    by (simp add: without_dummies_def)
  moreover have "atoms (without_dummies m) = atoms m"
    using f by (simp add: without_dummies_def)
  ultimately show ?thesis by simp
qed

lemma remove_dummies_closed:
  "wf_bonds m \<Longrightarrow> length (dummy_indices m) = k \<Longrightarrow> remove_dummies k m = Inr (without_dummies m)"
proof (induction k arbitrary: m)
  case 0
  then show ?case by (simp add: without_dummies_id)
next
  case (Suc k)
  then obtain d ds where dd: "dummy_indices m = d # ds" and len: "length ds = k"
    by (cases "dummy_indices m") auto
  from dummy_indices_Cons_D [OF dd] have d: "d < length (atoms m)" and z: "AtomicNum (atoms m ! d) = 0"
    by simp_all
  have l: "length (dummy_indices (RemoveAtom m d)) = k"
    using RemoveAtom_dummy_count [OF dd] len by simp
  have "remove_dummies k (RemoveAtom m d) = Inr (without_dummies (RemoveAtom m d))"
    by (rule Suc.IH [OF RemoveAtom_wf [OF Suc.prems(1) d] l])
  then show ?case
    by (simp add: dd RemoveAtom_without_dummies [OF Suc.prems(1) d z])
qed

lemma noted_atoms_cong: "atoms m = atoms m' \<Longrightarrow> noted m v = noted m' v"
  by (simp add: noted_def)

lemma unnoted_nth: "unnoted m \<Longrightarrow> x < length (atoms m) \<Longrightarrow> atomNote (atoms m ! x) = None"
  by (simp add: unnoted_def list_all_length)

lemma noted_singleton:
  assumes "c < length (atoms m)"
    and "\<And>x. x < length (atoms m) \<Longrightarrow> (atomNote (atoms m ! x) = Some v) = (x = c)"
  shows "noted m v = [c]"
proof -
  have "filter (\<lambda>i. atomNote (atoms m ! i) = Some v) [0..<length (atoms m)]
      = filter (\<lambda>i. i = c) [0..<length (atoms m)]"
    by (rule filter_cong [OF refl]) (simp add: assms(2))
  then show ?thesis using assms(1) by (simp add: noted_def filter_eq_index)
qed

lemma noted_empty:
  assumes "\<And>x. x < length (atoms m) \<Longrightarrow> atomNote (atoms m ! x) \<noteq> Some v"
  shows "noted m v = []"
  using assms by (simp add: noted_def filter_empty_conv)

lemma wf_bonds_SetProp: "wf_bonds (SetProp m i v) = wf_bonds m"
  by (simp add: wf_bonds_def SetProp_simps)

lemma placeholder_neighbour_0:
  "dummy_indices m = d # ds \<Longrightarrow> first_neighbor m d = Inr a \<Longrightarrow> placeholder_neighbour m 0 = Some a"
  by (auto simp: placeholder_neighbour_def first_neighbor_def split: list.splits)

lemma placeholder_neighbour_1:
  "dummy_indices m = d # d' # ds \<Longrightarrow> first_neighbor m d' = Inr a \<Longrightarrow>
   placeholder_neighbour m 1 = Some a"
  by (auto simp: placeholder_neighbour_def first_neighbor_def split: list.splits)

lemma placeholder_neighbour_in_range:
  assumes "wf_bonds m" and "placeholder_neighbour m k = Some a"
  shows "a < length (atoms m)"
proof -
  from assms(2) have "first_neighbor m (dummy_indices m ! k) = Inr a"
    by (auto simp: placeholder_neighbour_def first_neighbor_def split: if_splits list.splits)
  then show ?thesis by (rule first_neighbor_in_range [OF assms(1)])
qed

lemma attach_end_atoms:
  "atoms (attach_end inator a rw h) = atoms (CombineMols (SetProp inator a ''done'') rw)"
  by (simp add: attach_end_def CombineMols_simps)

lemma wf_bonds_attach_end:
  assumes "wf_bonds inator" and "wf_bonds rw" and "a < length (atoms inator)"
    and "h < length (atoms rw)"
  shows "wf_bonds (attach_end inator a rw h)"
proof (rule wf_bonds_I)
  fix x y ty
  assume "(x, y, ty) \<in> set (bonds (attach_end inator a rw h))"
  then consider "(x, y, ty) \<in> set (bonds inator)"
    | x0 y0 where "(x0, y0, ty) \<in> set (bonds rw)" "x = x0 + length (atoms inator)"
        "y = y0 + length (atoms inator)"
    | "x = h + length (atoms inator)" "y = a"
    by (auto simp: attach_end_def CombineMols_def)
  then show "x < length (atoms (attach_end inator a rw h)) \<and> y < length (atoms (attach_end inator a rw h))"
  proof cases
    case 1
    from wf_bonds_D [OF assms(1) this] show ?thesis
      by (simp add: attach_end_def SetProp_simps)
  next
    case 2
    from wf_bonds_D [OF assms(2) 2(1)] show ?thesis
      using 2 by (simp add: attach_end_def SetProp_simps)
  next
    case 3
    then show ?thesis using assms(3,4) by (simp add: attach_end_def SetProp_simps)
  qed
qed

lemma fuse_one_closed:
  assumes f: "fuse_one role ino rw = Inr rw'"
    and ino: "mol_of ino = Some inator"
    and un: "unnoted inator" and wf: "wf_bonds inator"
  shows "\<exists>a h hs. placeholder_neighbour inator 0 = Some a \<and> a < length (atoms inator)
     \<and> noted rw (role_note role) = h # hs \<and> rw' = attach_end inator a rw h"
proof -
  from fuse_one_D [OF f] ino obtain d ds attatch a h m2 as hs where
    dd: "dummy_indices inator = d # ds" and fn: "first_neighbor inator d = Inr attatch"
    and a: "noted (CombineMols (SetProp inator attatch ''attatch'') rw) ''attatch'' = a # as"
    and h: "noted (CombineMols (SetProp inator attatch ''attatch'') rw) (role_note role) = h # hs"
    and ab: "AddBond (CombineMols (SetProp inator attatch ''attatch'') rw) h a SINGLE = Inr m2"
    and rw': "rw' = SetProp m2 a ''done''"
    by auto
  have al: "attatch < length (atoms inator)"
    by (rule first_neighbor_in_range [OF wf fn])
  have "noted (CombineMols (SetProp inator attatch ''attatch'') rw) ''attatch''
      = attatch # map (\<lambda>i. i + length (atoms inator)) (noted rw ''attatch'')"
    by (simp add: noted_CombineMols noted_SetProp_unnoted [OF un al] SetProp_simps)
  with a have aeq: "a = attatch" by simp
  have "noted (CombineMols (SetProp inator attatch ''attatch'') rw) (role_note role)
      = map (\<lambda>i. i + length (atoms inator)) (noted rw (role_note role))"
    by (simp add: noted_CombineMols noted_SetProp_unnoted [OF un al] SetProp_simps
        role_note_not_attatch)
  with h obtain h0 hs0 where h0: "noted rw (role_note role) = h0 # hs0"
    and heq: "h = h0 + length (atoms inator)"
    by (cases "noted rw (role_note role)") auto
  from AddBond_D [OF ab] have m2: "m2 = (CombineMols (SetProp inator attatch ''attatch'') rw)
      \<lparr>bonds := bonds (CombineMols (SetProp inator attatch ''attatch'') rw) @ [(h, a, SINGLE)]\<rparr>"
    by simp
  have atoms': "atoms rw' = atoms (SetProp inator attatch ''done'') @ atoms rw"
    using al
    by (simp add: rw' m2 aeq SetProp_def CombineMols_def list_update_append1 nth_append)
  have bonds': "bonds rw' = bonds (CombineMols inator rw) @ [(h0 + length (atoms inator), attatch, SINGLE)]"
    by (simp add: rw' m2 SetProp_simps CombineMols_SetProp_bonds heq aeq)
  have "rw' = attach_end inator attatch rw h0"
    using atoms' bonds' by (simp add: attach_end_def)
  then show ?thesis
    using placeholder_neighbour_0 [OF dd fn] al h0 by blast
qed

lemma conn_atoms_0:
  assumes "map_exn (first_neighbor m) (dummy_indices m) = Inr (c0 # others)"
  shows "placeholder_neighbour m 0 = Some c0"
proof -
  from map_exn_Cons_D [OF assms] obtain d ds where
    "dummy_indices m = d # ds" "first_neighbor m d = Inr c0"
    by blast
  then show ?thesis by (rule placeholder_neighbour_0)
qed

lemma conn_atoms_1:
  assumes "map_exn (first_neighbor m) (dummy_indices m) = Inr (c0 # c1 # others)"
  shows "placeholder_neighbour m 1 = Some c1"
proof -
  from map_exn_Inr_D [OF assms]
  have "list_all2 (\<lambda>x y. first_neighbor m x = Inr y) (dummy_indices m) (c0 # c1 # others)" .
  then obtain d0 d1 ds where "dummy_indices m = d0 # d1 # ds" "first_neighbor m d1 = Inr c1"
    by (auto simp: list_all2_Cons2)
  then show ?thesis by (rule placeholder_neighbour_1)
qed

lemma labelled_chain_initiator:
  assumes "labelled_chain E smi (True, init) (False, term) = Inr (pol, inators)"
    and "MolFromSmiles E smi = Some P"
  shows "\<exists>c0. placeholder_neighbour P 0 = Some c0 \<and> pol = SetProp P c0 ''head''
     \<and> inators = [(Initiator, init)]"
proof -
  from assms obtain conn where c: "map_exn (first_neighbor P) (dummy_indices P) = Inr conn"
    and l: "label_ends P conn (True, init) (False, term) = Inr (pol, inators)"
    by (auto simp: labelled_chain_def split: sum.splits)
  from l obtain c0 others where conn: "conn = c0 # others"
    by (cases conn) (simp_all add: label_ends_def)
  from l have "pol = SetProp P c0 ''head''" "inators = [(Initiator, init)]"
    by (simp_all add: label_ends_def conn)
  then show ?thesis using conn_atoms_0 [OF c [unfolded conn]] by simp
qed

lemma labelled_chain_terminator:
  assumes "labelled_chain E smi (False, init) (True, term) = Inr (pol, inators)"
    and "MolFromSmiles E smi = Some P"
  shows "\<exists>c0. placeholder_neighbour P 0 = Some c0 \<and> pol = SetProp P c0 ''tail''
     \<and> inators = [(Terminator, term)]"
proof -
  from assms obtain conn where c: "map_exn (first_neighbor P) (dummy_indices P) = Inr conn"
    and l: "label_ends P conn (False, init) (True, term) = Inr (pol, inators)"
    by (auto simp: labelled_chain_def split: sum.splits)
  from l obtain c0 others where conn: "conn = c0 # others"
    by (cases conn) (simp_all add: label_ends_def)
  from l have "pol = SetProp P c0 ''tail''" "inators = [(Terminator, term)]"
    by (simp_all add: label_ends_def conn)
  then show ?thesis using conn_atoms_0 [OF c [unfolded conn]] by simp
qed

lemma labelled_chain_both:
  assumes "labelled_chain E smi (True, init) (True, term) = Inr (pol, inators)"
    and "MolFromSmiles E smi = Some P"
  shows "\<exists>c0 c1. placeholder_neighbour P 0 = Some c0 \<and> placeholder_neighbour P 1 = Some c1
     \<and> pol = SetProp (SetProp P c0 ''head'') c1 ''tail''
     \<and> inators = [(Initiator, init), (Terminator, term)]"
proof -
  from assms obtain conn where c: "map_exn (first_neighbor P) (dummy_indices P) = Inr conn"
    and l: "label_ends P conn (True, init) (True, term) = Inr (pol, inators)"
    by (auto simp: labelled_chain_def split: sum.splits)
  from l obtain c0 others where conn: "conn = c0 # others"
    by (cases conn) (simp_all add: label_ends_def)
  from l conn obtain c1 rest where o: "others = c1 # rest"
    by (cases others) (simp_all add: label_ends_def)
  from l have "pol = SetProp (SetProp P c0 ''head'') c1 ''tail''"
    "inators = [(Initiator, init), (Terminator, term)]"
    by (simp_all add: label_ends_def conn o)
  then show ?thesis
    using conn_atoms_0 [OF c [unfolded conn]] conn_atoms_1 [OF c [unfolded conn o]] by simp
qed

lemma two_labels_notes:
  assumes un: "unnoted P" and c0: "c0 < length (atoms P)" and c1: "c1 < length (atoms P)"
  shows "noted (SetProp (SetProp P c0 ''head'') c1 ''tail'') ''tail'' = [c1]"
    and "c0 \<noteq> c1 \<Longrightarrow> noted (SetProp (SetProp P c0 ''head'') c1 ''tail'') ''head'' = [c0]"
    and "c0 = c1 \<Longrightarrow> noted (SetProp (SetProp P c0 ''head'') c1 ''tail'') ''head'' = []"
proof -
  let ?pol = "SetProp (SetProp P c0 ''head'') c1 ''tail''"
  have len: "length (atoms ?pol) = length (atoms P)" by (simp add: SetProp_simps)
  have c1': "c1 < length (atoms (SetProp P c0 ''head''))" using c1 by (simp add: SetProp_simps)
  have at1: "atomNote (atoms ?pol ! c1) = Some ''tail''"
    by (rule SetProp_note(1) [OF c1'])
  have other: "atomNote (atoms ?pol ! x) = (if x = c0 then Some ''head'' else None)"
    if "x < length (atoms P)" "x \<noteq> c1" for x
  proof (cases "x = c0")
    case True
    then show ?thesis
      using that SetProp_note(2) [of x c1 "SetProp P c0 ''head''" "''tail''"]
        SetProp_note(1) [OF c0, of "''head''"] by simp
  next
    case False
    then show ?thesis
      using that SetProp_note(2) [of x c1 "SetProp P c0 ''head''" "''tail''"]
        SetProp_note(2) [of x c0 P "''head''"] unnoted_nth [OF un that(1)] by simp
  qed
  show "noted ?pol ''tail'' = [c1]"
  proof (rule noted_singleton)
    show "c1 < length (atoms ?pol)" using c1 len by simp
    fix x assume "x < length (atoms ?pol)"
    then have x: "x < length (atoms P)" using len by simp
    show "(atomNote (atoms ?pol ! x) = Some ''tail'') = (x = c1)"
      using at1 other [OF x] by (cases "x = c1") auto
  qed
  show "noted ?pol ''head'' = [c0]" if ne: "c0 \<noteq> c1"
  proof (rule noted_singleton)
    show "c0 < length (atoms ?pol)" using c0 len by simp
    fix x assume "x < length (atoms ?pol)"
    then have x: "x < length (atoms P)" using len by simp
    show "(atomNote (atoms ?pol ! x) = Some ''head'') = (x = c0)"
      using at1 other [OF x] ne by (cases "x = c1") auto
  qed
  show "noted ?pol ''head'' = []" if eq: "c0 = c1"
  proof (rule noted_empty)
    fix x assume "x < length (atoms ?pol)"
    then have x: "x < length (atoms P)" using len by simp
    show "atomNote (atoms ?pol ! x) \<noteq> Some ''head''"
      using at1 other [OF x] eq by (cases "x = c1") auto
  qed
qed

lemma attach_end_noted:
  assumes un: "unnoted inator" and a: "a < length (atoms inator)" and v: "v \<noteq> ''done''"
  shows "noted (attach_end inator a rw h) v = map (\<lambda>i. i + length (atoms inator)) (noted rw v)"
proof -
  have "noted (attach_end inator a rw h) v = noted (CombineMols (SetProp inator a ''done'') rw) v"
    by (rule noted_atoms_cong) (rule attach_end_atoms)
  then show ?thesis
    using v by (simp add: noted_CombineMols noted_SetProp_unnoted [OF un a] SetProp_simps)
qed

lemma fused_chain_D:
  "fused_chain E smi ai at = Inr M \<Longrightarrow>
   \<exists>pol inators. labelled_chain E smi ai at = Inr (pol, inators) \<and> fuse_inators inators pol = Inr M"
  by (auto simp: fused_chain_def split: sum.splits)

lemma fuse_inators_single:
  "fuse_inators [(role, ino)] rw = Inr M \<Longrightarrow> fuse_one role ino rw = Inr M"
  by (auto split: sum.splits)

lemma fuse_inators_pair:
  "fuse_inators [(r1, i1), (r2, i2)] rw = Inr M \<Longrightarrow>
   \<exists>rw1. fuse_one r1 i1 rw = Inr rw1 \<and> fuse_one r2 i2 rw1 = Inr M"
  by (auto split: sum.splits)

lemma fused_single_end:
  assumes l: "labelled_chain E smi ai at = Inr (SetProp P c0 (role_note role), [(role, ino)])"
    and f: "fused_chain E smi ai at = Inr M"
    and c0: "placeholder_neighbour P 0 = Some c0"
    and i: "mol_of ino = Some I"
    and P: "unnoted P" "wf_bonds P" and I: "unnoted I" "wf_bonds I"
  shows "\<exists>a0. placeholder_neighbour I 0 = Some a0
     \<and> M = attach_end I a0 (SetProp P c0 (role_note role)) c0 \<and> wf_bonds M"
proof -
  let ?pol = "SetProp P c0 (role_note role)"
  from fused_chain_D [OF f] l have "fuse_inators [(role, ino)] ?pol = Inr M" by simp
  then have one: "fuse_one role ino ?pol = Inr M" by (rule fuse_inators_single)
  from fuse_one_closed [OF one i I] obtain a h hs where
    a: "placeholder_neighbour I 0 = Some a" and al: "a < length (atoms I)"
    and h: "noted ?pol (role_note role) = h # hs" and M: "M = attach_end I a ?pol h"
    by blast
  have cl: "c0 < length (atoms P)"
    by (rule placeholder_neighbour_in_range [OF P(2) c0])
  have "noted ?pol (role_note role) = [c0]"
    by (simp add: noted_SetProp_unnoted [OF P(1) cl])
  with h have heq: "h = c0" by simp
  have "wf_bonds (attach_end I a ?pol c0)"
    by (rule wf_bonds_attach_end) (simp_all add: I P wf_bonds_SetProp al cl SetProp_simps)
  then show ?thesis using a M heq by simp
qed

lemma fused_initiator_only:
  assumes f: "fused_chain E smi (True, init) (False, term) = Inr M"
    and p: "MolFromSmiles E smi = Some P" and i: "mol_of init = Some I"
    and P: "unnoted P" "wf_bonds P" and I: "unnoted I" "wf_bonds I"
  shows "\<exists>c0 a0. placeholder_neighbour P 0 = Some c0 \<and> placeholder_neighbour I 0 = Some a0
     \<and> M = attach_end I a0 (SetProp P c0 ''head'') c0 \<and> wf_bonds M"
proof -
  from fused_chain_D [OF f] obtain pol inators where
    l: "labelled_chain E smi (True, init) (False, term) = Inr (pol, inators)" by blast
  from labelled_chain_initiator [OF l p] obtain c0 where c0: "placeholder_neighbour P 0 = Some c0"
    and pol: "pol = SetProp P c0 ''head''" and ins: "inators = [(Initiator, init)]"
    by blast
  have l': "labelled_chain E smi (True, init) (False, term)
      = Inr (SetProp P c0 (role_note Initiator), [(Initiator, init)])"
    using l pol ins by simp
  from fused_single_end [OF l' f c0 i P I] show ?thesis
    using c0 by auto
qed

lemma fused_terminator_only:
  assumes f: "fused_chain E smi (False, init) (True, term) = Inr M"
    and p: "MolFromSmiles E smi = Some P" and t: "mol_of term = Some T"
    and P: "unnoted P" "wf_bonds P" and T: "unnoted T" "wf_bonds T"
  shows "\<exists>c0 b0. placeholder_neighbour P 0 = Some c0 \<and> placeholder_neighbour T 0 = Some b0
     \<and> M = attach_end T b0 (SetProp P c0 ''tail'') c0 \<and> wf_bonds M"
proof -
  from fused_chain_D [OF f] obtain pol inators where
    l: "labelled_chain E smi (False, init) (True, term) = Inr (pol, inators)" by blast
  from labelled_chain_terminator [OF l p] obtain c0 where c0: "placeholder_neighbour P 0 = Some c0"
    and pol: "pol = SetProp P c0 ''tail''" and ins: "inators = [(Terminator, term)]"
    by blast
  have l': "labelled_chain E smi (False, init) (True, term)
      = Inr (SetProp P c0 (role_note Terminator), [(Terminator, term)])"
    using l pol ins by simp
  from fused_single_end [OF l' f c0 t P T] show ?thesis
    using c0 by auto
qed

lemma fused_both_ends:
  assumes f: "fused_chain E smi (True, init) (True, term) = Inr M"
    and p: "MolFromSmiles E smi = Some P"
    and i: "mol_of init = Some I" and t: "mol_of term = Some T"
    and P: "unnoted P" "wf_bonds P" and I: "unnoted I" "wf_bonds I"
    and T: "unnoted T" "wf_bonds T"
  shows "\<exists>c0 c1 a0 b0. placeholder_neighbour P 0 = Some c0 \<and> placeholder_neighbour P 1 = Some c1
     \<and> c0 \<noteq> c1
     \<and> placeholder_neighbour I 0 = Some a0 \<and> placeholder_neighbour T 0 = Some b0
     \<and> M = attach_end T b0
           (attach_end I a0 (SetProp (SetProp P c0 ''head'') c1 ''tail'') c0)
           (c1 + length (atoms I))
     \<and> wf_bonds M"
proof -
  from fused_chain_D [OF f] obtain pol inators where
    l: "labelled_chain E smi (True, init) (True, term) = Inr (pol, inators)"
    and fi: "fuse_inators inators pol = Inr M" by blast
  from labelled_chain_both [OF l p] obtain c0 c1 where c0: "placeholder_neighbour P 0 = Some c0"
    and c1: "placeholder_neighbour P 1 = Some c1"
    and pol: "pol = SetProp (SetProp P c0 ''head'') c1 ''tail''"
    and ins: "inators = [(Initiator, init), (Terminator, term)]"
    by blast
  have c0l: "c0 < length (atoms P)" and c1l: "c1 < length (atoms P)"
    using placeholder_neighbour_in_range [OF P(2)] c0 c1 by blast+
  from fuse_inators_pair [OF fi [unfolded ins]] obtain rw1 where
    one: "fuse_one Initiator init pol = Inr rw1" and two: "fuse_one Terminator term rw1 = Inr M"
    by blast
  from fuse_one_closed [OF one i I] obtain a h hs where
    a: "placeholder_neighbour I 0 = Some a" and al: "a < length (atoms I)"
    and h: "noted pol ''head'' = h # hs" and rw1: "rw1 = attach_end I a pol h"
    by auto
  have ne: "c0 \<noteq> c1"
    using h two_labels_notes(3) [OF P(1) c0l c1l] pol by auto
  have "noted pol ''head'' = [c0]"
    using two_labels_notes(2) [OF P(1) c0l c1l ne] pol by simp
  with h have heq: "h = c0" by simp
  from fuse_one_closed [OF two t T] obtain b g gs where
    b: "placeholder_neighbour T 0 = Some b" and bl: "b < length (atoms T)"
    and g: "noted rw1 ''tail'' = g # gs" and M: "M = attach_end T b rw1 g"
    by auto
  have "noted rw1 ''tail'' = map (\<lambda>i. i + length (atoms I)) (noted pol ''tail'')"
    unfolding rw1 by (rule attach_end_noted [OF I(1) al]) simp
  also have "noted pol ''tail'' = [c1]"
    using two_labels_notes(1) [OF P(1) c0l c1l] pol by simp
  finally have geq: "g = c1 + length (atoms I)" using g by simp
  have wpol: "wf_bonds pol" by (simp add: pol wf_bonds_SetProp P)
  have lpol: "length (atoms pol) = length (atoms P)" by (simp add: pol SetProp_simps)
  have w1: "wf_bonds rw1"
    unfolding rw1 heq by (rule wf_bonds_attach_end [OF I(2) wpol al]) (simp add: lpol c0l)
  have l1: "length (atoms rw1) = length (atoms I) + length (atoms P)"
    by (simp add: rw1 attach_end_def SetProp_simps lpol)
  have "wf_bonds (attach_end T b rw1 g)"
    by (rule wf_bonds_attach_end [OF T(2) w1 bl]) (simp add: geq l1 c1l)
  then show ?thesis
    using c0 c1 ne a b M rw1 heq geq pol by auto
qed

lemma attatch_frags_mol_closed:
  assumes "attatch_frags_mol E smi ai at = Inr m"
  shows "\<exists>M. fused_chain E smi ai at = Inr M \<and> (wf_bonds M \<longrightarrow> m = without_dummies M)"
proof -
  from assms obtain M where M: "fused_chain E smi ai at = Inr M"
    and r: "remove_dummies (length (dummy_indices M)) M = Inr m"
    by (auto simp: attatch_frags_mol_def split: sum.splits)
  have "m = without_dummies M" if "wf_bonds M"
    using remove_dummies_closed [OF that refl] r by simp
  then show ?thesis using M by blast
qed



















lemma attachable_mono: "attachable m 2 \<Longrightarrow> attachable m 1"
  by (simp add: attachable_def)
















end
